theory Spec2Isabelle
  imports Complex_Main
begin

section \<open>Data model of the simulation core\<close>

text \<open>
  The reducer \<open>gameReducer\<close> of \<open>Simulation.tsx\<close> is embedded as a pure function on
  a record of the world. JavaScript numbers are read as real numbers, so rounding,
  infinities, NaN and signed zeros are outside the model. Every call of
  \<open>Math.random()\<close> and of \<open>Date.now()\<close> is an input of the tick: the environment
  supplies the clock and one value per draw, indexed by the place of the call and
  its loop index.

  The record holds the fields of \<open>GameState\<close> that the reducer computes with. The
  presentation fields (floating texts, shockwaves, visual effects, trail particles,
  screen shake, notifications, sound) are only written by the reducer and never read
  by a computation on the modelled fields; they are left out, as are the fields of
  the user interface (inventory, lore, milestones, chapters, upgrades).
\<close>

text \<open>
  Modelled from the spec: the declaration of \<open>NodeType\<close> lives in \<open>types.ts\<close>, which
  is not among the sources; the spec lists these six variants, and they are the six
  the reducer tests for.
\<close>

datatype NodeType =
  player_consciousness | star | rocky_planet | life_seed | sentient_colony | asteroid

datatype PlayerState = IDLE | AIMING_DIRECTION | AIMING_POWER | PROJECTING | REFORMING

text \<open>Identifiers built by template strings from the clock, an index or a draw.\<close>

datatype gen_id = DustId real nat | EruptId real nat | OrbId real real

record GameNode =
  n_id :: string
  n_label :: string
  n_type :: NodeType
  n_x :: real
  n_y :: real
  n_vx :: real
  n_vy :: real
  n_radius :: real
  n_connections :: "string list"
  n_hasLife :: bool
  n_imageUrl :: "string option"
  n_maxIntegrity :: real
  n_currentIntegrity :: real
  n_integrityCooldown :: real

record Satellite =
  s_id :: string
  s_type :: NodeType
  s_imageUrl :: "string option"
  s_label :: string
  s_orbitRadius :: real
  s_orbitSpeed :: real
  s_angle :: real

record SpaceDust =
  d_id :: gen_id
  d_x :: real
  d_y :: real
  d_vx :: real
  d_vy :: real
  d_size :: real
  d_color :: string

record EnergyOrb =
  o_id :: gen_id
  o_x :: real
  o_y :: real
  o_vx :: real
  o_vy :: real
  o_radius :: real
  o_value :: real

record ProjectionState =
  playerState :: PlayerState
  aimAngle :: real
  power_level :: real
  reformTimer :: real

record GameState =
  gameStarted :: bool
  isPaused :: bool
  energy :: real
  knowledge :: real
  biomass :: real
  unity :: real
  complexity :: real
  data_total :: real
  karma :: real
  zoomLevel :: real
  nodes :: "GameNode list"
  satellites :: "Satellite list"
  spaceDust :: "SpaceDust list"
  projection :: ProjectionState
  turnHitIds :: "string set"
  energyOrbs :: "EnergyOrb list"
  selectedNodeId :: "string option"
  aimAssistTargetId :: "string option"
  settings_aimAssist :: bool

text \<open>The places where the reducer calls \<open>Math.random()\<close>.\<close>

datatype draw =
  DustX nat | DustY nat | DustVx nat | DustVy nat | DustSize nat | DustColor nat
  | EruptAngle nat | SatSpeed | SatAngle
  | StarOrbChance nat | StarOrbId nat | StarOrbX nat | StarOrbY nat
  | StarOrbVx nat | StarOrbVy nat

record env =
  now :: real
  rnd :: "draw \<Rightarrow> real"

section \<open>Constants\<close>

definition BASE_KNOWLEDGE_RATE :: real where "BASE_KNOWLEDGE_RATE = 0.1"
definition STAR_ENERGY_RATE :: real where "STAR_ENERGY_RATE = 0.5"
definition STAR_ORB_SPAWN_CHANCE :: real where "STAR_ORB_SPAWN_CHANCE = 0.005"
definition AIM_ROTATION_SPEED :: real where "AIM_ROTATION_SPEED = 0.05"
definition POWER_OSCILLATION_SPEED :: real where "POWER_OSCILLATION_SPEED = 1.5"
definition MAX_LAUNCH_POWER :: real where "MAX_LAUNCH_POWER = 40"
definition PROJECTILE_FRICTION :: real where "PROJECTILE_FRICTION = 0.99"
definition REFORM_DURATION :: real where "REFORM_DURATION = 80"
definition ORB_COLLECTION_LEEWAY :: real where "ORB_COLLECTION_LEEWAY = 25"
definition AIM_ASSIST_ANGLE :: real where "AIM_ASSIST_ANGLE = 0.2"
definition HARMONY_THRESHOLD :: real where "HARMONY_THRESHOLD = 50"
definition CHAOS_THRESHOLD :: real where "CHAOS_THRESHOLD = - 50"

section \<open>Numeric helpers of the JavaScript library\<close>

definition hypot :: "real \<Rightarrow> real \<Rightarrow> real" where
  "hypot a b = sqrt (a * a + b * b)"

text \<open>\<open>Math.atan2(y, x)\<close> on reals; at the origin JavaScript returns 0.\<close>

definition atan2 :: "real \<Rightarrow> real \<Rightarrow> real" where
  "atan2 b a =
     (if 0 < a then arctan (b / a)
      else if a < 0 \<and> 0 \<le> b then arctan (b / a) + pi
      else if a < 0 \<and> b < 0 then arctan (b / a) - pi
      else if 0 < b then pi / 2
      else if b < 0 then - (pi / 2)
      else 0)"

text \<open>\<open>Array.prototype.findIndex\<close>, with \<open>None\<close> for \<open>-1\<close>.\<close>

primrec findIndex :: "('a \<Rightarrow> bool) \<Rightarrow> 'a list \<Rightarrow> nat option" where
  "findIndex P [] = None"
| "findIndex P (a # as) =
     (if P a then Some 0 else map_option Suc (findIndex P as))"

text \<open>A string is truthy in JavaScript when it is neither null nor empty.\<close>

definition truthy :: "string option \<Rightarrow> bool" where
  "truthy v = (case v of None \<Rightarrow> False | Some t \<Rightarrow> t \<noteq> [])"

section \<open>The tick\<close>

definition isPlayerNode :: "GameNode \<Rightarrow> bool" where
  "isPlayerNode n \<longleftrightarrow> n_type n = player_consciousness"

text \<open>
  The locals of one \<open>TICK\<close>: the shallow copy \<open>nextState\<close>, the array
  \<open>mutableNodes\<close> of copied nodes, and \<open>playerNode\<close>, which in the source is a
  reference to the first node of type \<open>player_consciousness\<close> in that array and is
  kept here as its index.
\<close>

record tick_locals =
  nextState :: GameState
  mutableNodes :: "GameNode list"
  playerNode :: "nat option"

definition createSpaceDust :: "env \<Rightarrow> nat \<Rightarrow> real \<Rightarrow> real \<Rightarrow> SpaceDust list" where
  "createSpaceDust e count width height =
     map (\<lambda>i. \<lparr>d_id = DustId (now e) i,
               d_x = (rnd e (DustX i) - 0.5) * width * 2,
               d_y = (rnd e (DustY i) - 0.5) * height * 2,
               d_vx = (rnd e (DustVx i) - 0.5) * 0.2,
               d_vy = (rnd e (DustVy i) - 0.5) * 0.2,
               d_size = rnd e (DustSize i) * 2 + 1,
               d_color = (if rnd e (DustColor i) > 0.8 then ''#a5f3fc'' else ''#ffffff'')\<rparr>)
         [0..<count]"

subsection \<open>Aiming\<close>

definition angleDiffTo :: "real \<Rightarrow> GameNode \<Rightarrow> GameNode \<Rightarrow> real" where
  "angleDiffTo newAngle p node =
     (let angleToNode = atan2 (n_y node - n_y p) (n_x node - n_x p);
          angleDiff = \<bar>newAngle - angleToNode\<bar>
      in if angleDiff > pi then 2 * pi - angleDiff else angleDiff)"

definition tickAimingDirection :: "nat \<Rightarrow> tick_locals \<Rightarrow> tick_locals" where
  "tickAimingDirection pidx c =
     (let s = nextState c; ms = mutableNodes c; p = ms ! pidx;
          selectedId = selectedNodeId s;
          rotated = aimAngle (projection s) + AIM_ROTATION_SPEED;
          locked =
            (if truthy selectedId
             then (case find (\<lambda>n. Some (n_id n) = selectedId) ms of
                     Some targetNode \<Rightarrow>
                       (selectedId, atan2 (n_y targetNode - n_y p) (n_x targetNode - n_x p))
                   | None \<Rightarrow> (None, rotated))
             else (None, rotated));
          potentialTarget = fst locked; newAngle = snd locked;
          assisted =
            (if \<not> truthy potentialTarget \<and> settings_aimAssist s
             then (case find (\<lambda>node. n_id node \<noteq> n_id p
                                   \<and> angleDiffTo newAngle p node < AIM_ASSIST_ANGLE) ms of
                     Some node \<Rightarrow>
                       (let angleToNode = atan2 (n_y node - n_y p) (n_x node - n_x p)
                        in (Some (n_id node),
                            angleToNode + angleDiffTo newAngle p node * 0.1
                              * (if newAngle > angleToNode then - 1 else 1)))
                   | None \<Rightarrow> (potentialTarget, newAngle))
             else (potentialTarget, newAngle))
      in c\<lparr>nextState := s\<lparr>aimAssistTargetId := fst assisted,
                             projection := (projection s)\<lparr>aimAngle := snd assisted\<rparr>\<rparr>\<rparr>)"

definition tickAimingPower :: "env \<Rightarrow> tick_locals \<Rightarrow> tick_locals" where
  "tickAimingPower e c =
     (let s = nextState c
      in c\<lparr>nextState := s\<lparr>projection := (projection s)
             \<lparr>power_level := (sin (now e / (1000 / POWER_OSCILLATION_SPEED)) + 1) * 50\<rparr>\<rparr>\<rparr>)"

definition tickReforming :: "tick_locals \<Rightarrow> tick_locals" where
  "tickReforming c =
     (let s = nextState c; pr = projection s; t = reformTimer pr - 1
      in c\<lparr>nextState := s\<lparr>projection :=
             (if t \<le> 0 then pr\<lparr>reformTimer := t, playerState := IDLE\<rparr>
              else pr\<lparr>reformTimer := t\<rparr>)\<rparr>\<rparr>)"

subsection \<open>Projecting: dust\<close>

definition dustCollision ::
  "env \<Rightarrow> real \<Rightarrow> real \<Rightarrow> GameNode \<Rightarrow> GameState \<Rightarrow> GameState" where
  "dustCollision e width height p s =
     (let touched = filter (\<lambda>dust. hypot (n_x p - d_x dust) (n_y p - d_y dust)
                                     < n_radius p + d_size dust + 10) (spaceDust s);
          dustToRemove = remdups (map d_id touched);
          s1 = s\<lparr>knowledge := knowledge s + 0.5 * real (length touched)\<rparr>
      in if length dustToRemove > 0
         then s1\<lparr>spaceDust := filter (\<lambda>d. d_id d \<notin> set dustToRemove) (spaceDust s1)
                    @ createSpaceDust e (length dustToRemove) (width * 3) (height * 3)\<rparr>
         else s1)"

subsection \<open>Projecting: contact with a node\<close>

definition eruption :: "env \<Rightarrow> GameNode \<Rightarrow> EnergyOrb list" where
  "eruption e node =
     map (\<lambda>i. let orbAngle = rnd e (EruptAngle i) * pi * 2
              in \<lparr>o_id = EruptId (now e) i, o_x = n_x node, o_y = n_y node,
                  o_vx = cos orbAngle * 9, o_vy = sin orbAngle * 9,
                  o_radius = 8, o_value = 50\<rparr>)
         [0..<15]"

definition bounceFactor :: "NodeType \<Rightarrow> real" where
  "bounceFactor t =
     (let b = 0.85;
          b = (if t = asteroid then 1.3 else b);
          b = (if t = star then 1.1 else b)
      in b)"

definition hitReward :: "NodeType \<Rightarrow> bool \<Rightarrow> real" where
  "hitReward t isCombo =
     (if t = star then (if isCombo then 200 else 100)
      else if t = asteroid then (if isCombo then 20 else 10)
      else (if isCombo then 100 else 50))"

text \<open>The branch of a hit that leaves the node alive: reward, then the combo set.\<close>

definition standardHit :: "GameNode \<Rightarrow> GameState \<Rightarrow> GameState" where
  "standardHit node s =
     (let isCombo = n_id node \<in> turnHitIds s;
          reward = hitReward (n_type node) isCombo;
          s1 = (if n_type node = star then s\<lparr>energy := energy s + reward\<rparr>
                else if n_type node = asteroid then s\<lparr>knowledge := knowledge s + reward\<rparr>
                else s\<lparr>biomass := biomass s + reward\<rparr>)
      in s1\<lparr>turnHitIds := insert (n_id node) (turnHitIds s1)\<rparr>)"

text \<open>Damage and the short invulnerability of the node that was hit.\<close>

definition struck :: "GameNode \<Rightarrow> GameNode" where
  "struck node0 =
     node0\<lparr>n_currentIntegrity :=
              (if n_type node0 \<noteq> asteroid then n_currentIntegrity node0 - 1
               else n_currentIntegrity node0),
            n_integrityCooldown := 20\<rparr>"

text \<open>The player's velocity after the bounce off \<open>node\<close>.\<close>

definition bounceOff :: "GameNode \<Rightarrow> GameNode \<Rightarrow> GameNode" where
  "bounceOff node p =
     (let angle = atan2 (n_y p - n_y node) (n_x p - n_x node);
          speed = hypot (n_vx p) (n_vy p)
      in p\<lparr>n_vx := cos angle * speed * bounceFactor (n_type node),
            n_vy := sin angle * speed * bounceFactor (n_type node)\<rparr>)"

definition scaleVelocity :: "real \<Rightarrow> GameNode \<Rightarrow> GameNode" where
  "scaleVelocity f p = p\<lparr>n_vx := n_vx p * f, n_vy := n_vy p * f\<rparr>"

definition newSatellite :: "env \<Rightarrow> GameNode \<Rightarrow> Satellite list \<Rightarrow> Satellite" where
  "newSatellite e node sats =
     \<lparr>s_id = n_id node, s_type = n_type node, s_imageUrl = n_imageUrl node,
      s_label = n_label node,
      s_orbitRadius = 60 + real (length sats) * 20,
      s_orbitSpeed = 0.02 + rnd e SatSpeed * 0.01,
      s_angle = rnd e SatAngle * pi * 2\<rparr>"

text \<open>
  The collision handler for the node at index \<open>k\<close>, entered when its cooldown has
  run out. Filtering \<open>mutableNodes\<close> on assimilation moves the player's slot down by
  the number of removed entries before it.
\<close>

definition collide :: "env \<Rightarrow> nat \<Rightarrow> nat \<Rightarrow> tick_locals \<Rightarrow> tick_locals" where
  "collide e pidx k c =
     (let s = nextState c; ms = mutableNodes c;
          node1 = struck (ms ! k);
          p1 = bounceOff node1 (ms ! pidx)
      in if n_currentIntegrity node1 \<le> 0 \<and> n_type node1 \<noteq> asteroid
         then
           (if n_type node1 = star
            then
              (let p2 = scaleVelocity 1.5 p1;
                   node2 = node1\<lparr>n_currentIntegrity := n_maxIntegrity node1,
                                 n_integrityCooldown := 600\<rparr>
               in c\<lparr>nextState := s\<lparr>energy := energy s + 1000,
                                      energyOrbs := energyOrbs s @ eruption e node2\<rparr>,
                     mutableNodes := ms[k := node2, pidx := p2]\<rparr>)
            else if n_type node1 = rocky_planet \<or> n_type node1 = life_seed
                    \<or> n_type node1 = sentient_colony
            then
              (let p2 = scaleVelocity 0.6 p1;
                   keep = (\<lambda>n. n_id n \<noteq> n_id node1);
                   ms1 = ms[k := node1, pidx := p2]
               in c\<lparr>nextState := s\<lparr>nodes := filter keep (nodes s),
                                      satellites := satellites s @ [newSatellite e node1 (satellites s)],
                                      biomass := biomass s + 200\<rparr>,
                     mutableNodes := filter keep ms1,
                     playerNode := Some (length (filter keep (take pidx ms1)))\<rparr>)
            else c\<lparr>mutableNodes := ms[k := node1, pidx := p1]\<rparr>)
         else c\<lparr>nextState := standardHit node1 s,
                 mutableNodes := ms[k := node1, pidx := p1]\<rparr>)"

definition touches :: "GameNode \<Rightarrow> GameNode \<Rightarrow> bool" where
  "touches p node \<longleftrightarrow>
     hypot (n_x p - n_x node) (n_y p - n_y node) < n_radius p + n_radius node"

text \<open>
  The \<open>for (const node of mutableNodes)\<close> loop: \<open>rest\<close> is what is left to visit and
  \<open>i\<close> the index of its head. A node with the player's id is skipped; the first node
  in contact ends the loop, whether or not its handler runs.
\<close>

fun nodeCollisionLoop ::
  "env \<Rightarrow> nat \<Rightarrow> GameNode list \<Rightarrow> nat \<Rightarrow> tick_locals \<Rightarrow> tick_locals" where
  "nodeCollisionLoop e pidx [] i c = c"
| "nodeCollisionLoop e pidx (node # rest) i c =
     (let p = mutableNodes c ! pidx
      in if n_id node = n_id p then nodeCollisionLoop e pidx rest (Suc i) c
         else if touches p node
         then (if n_integrityCooldown node \<le> 0 then collide e pidx i c else c)
         else nodeCollisionLoop e pidx rest (Suc i) c)"

definition reformIfSlow :: "nat \<Rightarrow> tick_locals \<Rightarrow> tick_locals" where
  "reformIfSlow pidx c =
     (let s = nextState c; ms = mutableNodes c; p = ms ! pidx
      in if hypot (n_vx p) (n_vy p) < 0.8
         then c\<lparr>nextState := s\<lparr>projection := (projection s)
                    \<lparr>playerState := REFORMING, reformTimer := REFORM_DURATION\<rparr>\<rparr>,
                 mutableNodes := ms[pidx := p\<lparr>n_vx := 0, n_vy := 0\<rparr>]\<rparr>
         else c)"

definition tickProjecting :: "env \<Rightarrow> real \<Rightarrow> real \<Rightarrow> nat \<Rightarrow> tick_locals \<Rightarrow> tick_locals" where
  "tickProjecting e width height pidx c =
     (let c1 = c\<lparr>nextState := dustCollision e width height (mutableNodes c ! pidx) (nextState c)\<rparr>;
          c2 = nodeCollisionLoop e pidx (mutableNodes c1) 0 c1
      in case playerNode c2 of None \<Rightarrow> c2 | Some pidx2 \<Rightarrow> reformIfSlow pidx2 c2)"

definition projectionStateMachine ::
  "env \<Rightarrow> real \<Rightarrow> real \<Rightarrow> tick_locals \<Rightarrow> tick_locals" where
  "projectionStateMachine e width height c =
     (case playerNode c of
        None \<Rightarrow> c
      | Some pidx \<Rightarrow>
          (case playerState (projection (nextState c)) of
             AIMING_DIRECTION \<Rightarrow> tickAimingDirection pidx c
           | AIMING_POWER \<Rightarrow> tickAimingPower e c
           | PROJECTING \<Rightarrow> tickProjecting e width height pidx c
           | REFORMING \<Rightarrow> tickReforming c
           | IDLE \<Rightarrow> c))"

subsection \<open>Satellites, dust drift, passive accrual\<close>

definition paySatellite :: "Satellite \<Rightarrow> GameState \<Rightarrow> GameState" where
  "paySatellite sat t =
     (let t1 = t\<lparr>energy := energy t + 0.1\<rparr>
      in if s_type sat = life_seed then t1\<lparr>biomass := biomass t1 + 0.1\<rparr> else t1)"

definition satelliteLogic :: "GameState \<Rightarrow> GameState" where
  "satelliteLogic s =
     (let paid = fold paySatellite (satellites s) s
      in paid\<lparr>satellites := map (\<lambda>sat. sat\<lparr>s_angle := s_angle sat + s_orbitSpeed sat\<rparr>)
                                  (satellites s)\<rparr>)"

definition dustPhysics :: "GameState \<Rightarrow> GameState" where
  "dustPhysics s =
     s\<lparr>spaceDust := map (\<lambda>d. d\<lparr>d_x := d_x d + d_vx d, d_y := d_y d + d_vy d\<rparr>) (spaceDust s)\<rparr>"

text \<open>
  \<open>harmonyBonus\<close> is computed and not used afterwards. The loop over
  \<open>nextState.nodes\<close> also counts the cooldowns down, on the node objects of the state
  that was passed in: the returned state takes its nodes from \<open>mutableNodes\<close>, copied
  before, so the returned nodes do not carry that decrement.
\<close>

definition payStar :: "GameNode \<Rightarrow> GameState \<Rightarrow> GameState" where
  "payStar node t =
     (if n_type node = star then t\<lparr>energy := energy t + STAR_ENERGY_RATE\<rparr> else t)"

definition resourceAccrual :: "GameState \<Rightarrow> GameState" where
  "resourceAccrual s =
     (let harmonyBonus = (if karma s > HARMONY_THRESHOLD then 1.25 else (1.0::real));
          s1 = s\<lparr>knowledge := knowledge s + BASE_KNOWLEDGE_RATE\<rparr>
      in fold payStar (nodes s1) s1)"

subsection \<open>Node physics and the boundary\<close>

definition attract :: "GameNode \<Rightarrow> GameNode \<Rightarrow> GameNode" where
  "attract otherNode node =
     (if n_id node = n_id otherNode \<or> n_type otherNode = player_consciousness then node
      else
        (let dx = n_x otherNode - n_x node; dy = n_y otherNode - n_y node;
             distSq = dx * dx + dy * dy
         in if distSq > 100
            then
              (let dist = sqrt distSq;
                   force = (if n_type otherNode = star then 0.2 else 0.05)
                             * n_radius otherNode / distSq
               in node\<lparr>n_vx := n_vx node + (dx / dist) * force,
                       n_vy := n_vy node + (dy / dist) * force\<rparr>)
            else node))"

definition integrate :: "real \<Rightarrow> GameNode \<Rightarrow> GameNode" where
  "integrate friction node =
     node\<lparr>n_x := n_x node + n_vx node, n_y := n_y node + n_vy node,
          n_vx := n_vx node * friction, n_vy := n_vy node * friction\<rparr>"

definition boundaryCheck :: "real \<Rightarrow> GameNode \<Rightarrow> GameNode" where
  "boundaryCheck worldRadius node =
     (let distFromCenter = sqrt (n_x node * n_x node + n_y node * n_y node)
      in if distFromCenter > worldRadius - n_radius node
         then
           (let angle = atan2 (n_y node) (n_x node);
                node1 = node\<lparr>n_x := cos angle * (worldRadius - n_radius node),
                             n_y := sin angle * (worldRadius - n_radius node)\<rparr>
            in if n_type node1 = player_consciousness
               then
                 (let dot = n_vx node1 * cos angle + n_vy node1 * sin angle
                  in node1\<lparr>n_vx := n_vx node1 - 2.2 * dot * cos angle,
                           n_vy := n_vy node1 - 2.2 * dot * sin angle\<rparr>)
               else node1\<lparr>n_vx := n_vx node1 * (- 0.5), n_vy := n_vy node1 * (- 0.5)\<rparr>)
         else node)"

definition moveNode :: "PlayerState \<Rightarrow> GameNode list \<Rightarrow> GameNode \<Rightarrow> GameNode" where
  "moveNode ps ms node =
     (if n_type node = player_consciousness
      then (if ps = PROJECTING then integrate PROJECTILE_FRICTION node else node)
      else integrate 0.99 (fold attract ms node))"

definition starOrb :: "env \<Rightarrow> nat \<Rightarrow> GameNode \<Rightarrow> EnergyOrb list \<Rightarrow> EnergyOrb list" where
  "starOrb e i node orbs =
     (if n_type node = star \<and> rnd e (StarOrbChance i) < STAR_ORB_SPAWN_CHANCE
      then orbs @ [\<lparr>o_id = OrbId (now e) (rnd e (StarOrbId i)),
                     o_x = n_x node + (rnd e (StarOrbX i) - 0.5) * n_radius node,
                     o_y = n_y node + (rnd e (StarOrbY i) - 0.5) * n_radius node,
                     o_vx = (rnd e (StarOrbVx i) - 0.5) * 1,
                     o_vy = (rnd e (StarOrbVy i) - 0.5) * 1,
                     o_radius = 4, o_value = 10\<rparr>]
      else orbs)"

text \<open>
  One pass of \<open>mutableNodes.forEach\<close>: the node at index \<open>i\<close> is updated in place, so
  the nodes after it see its new position.
\<close>

definition nodeStep :: "env \<Rightarrow> real \<Rightarrow> nat \<Rightarrow> tick_locals \<Rightarrow> tick_locals" where
  "nodeStep e worldRadius i c =
     (let s = nextState c; ms = mutableNodes c;
          node = boundaryCheck worldRadius (moveNode (playerState (projection s)) ms (ms ! i))
      in c\<lparr>nextState := s\<lparr>energyOrbs := starOrb e i node (energyOrbs s)\<rparr>,
            mutableNodes := ms[i := node]\<rparr>)"

definition nodePhysics :: "env \<Rightarrow> real \<Rightarrow> tick_locals \<Rightarrow> tick_locals" where
  "nodePhysics e worldRadius c =
     fold (nodeStep e worldRadius) [0..<length (mutableNodes c)] c"

subsection \<open>Orb pickup\<close>

definition orbInReach :: "GameNode \<Rightarrow> EnergyOrb \<Rightarrow> bool" where
  "orbInReach p orb \<longleftrightarrow>
     (let dx = n_x p - o_x orb; dy = n_y p - o_y orb
      in sqrt (dx * dx + dy * dy) < n_radius p + o_radius orb + ORB_COLLECTION_LEEWAY)"

definition payOrb :: "GameNode \<Rightarrow> EnergyOrb \<Rightarrow> GameState \<Rightarrow> GameState" where
  "payOrb p orb t = (if orbInReach p orb then t\<lparr>energy := energy t + o_value orb\<rparr> else t)"

definition orbCollection :: "tick_locals \<Rightarrow> tick_locals" where
  "orbCollection c =
     (case playerNode c of
        None \<Rightarrow> c
      | Some pidx \<Rightarrow>
          (let s = nextState c; p = mutableNodes c ! pidx;
               paid = fold (payOrb p) (energyOrbs s) s
           in c\<lparr>nextState := paid\<lparr>energyOrbs := filter (\<lambda>orb. \<not> orbInReach p orb)
                                                         (energyOrbs s)\<rparr>\<rparr>))"

subsection \<open>The whole tick\<close>

definition worldRadiusOf :: "real \<Rightarrow> real \<Rightarrow> GameState \<Rightarrow> real" where
  "worldRadiusOf width height state = (min width height * 1.5) / (zoomLevel state + 1)"

text \<open>
  The locals at the start of a tick, the two stages between the state machine and the
  node physics, and everything up to and including the node physics.
\<close>

definition startLocals :: "GameState \<Rightarrow> tick_locals" where
  "startLocals state =
     \<lparr>nextState = state, mutableNodes = nodes state,
      playerNode = findIndex isPlayerNode (nodes state)\<rparr>"

definition satelliteStage :: "tick_locals \<Rightarrow> tick_locals" where
  "satelliteStage c =
     (case playerNode c of
        None \<Rightarrow> c
      | Some _ \<Rightarrow> c\<lparr>nextState := satelliteLogic (nextState c)\<rparr>)"

definition accrualStage :: "tick_locals \<Rightarrow> tick_locals" where
  "accrualStage c = c\<lparr>nextState := resourceAccrual (dustPhysics (nextState c))\<rparr>"

definition tickBody :: "env \<Rightarrow> real \<Rightarrow> real \<Rightarrow> GameState \<Rightarrow> tick_locals" where
  "tickBody e width height state =
     nodePhysics e (worldRadiusOf width height state)
       (accrualStage (satelliteStage
          (projectionStateMachine e width height (startLocals state))))"

definition tick :: "env \<Rightarrow> real \<Rightarrow> real \<Rightarrow> GameState \<Rightarrow> GameState" where
  "tick e width height state =
     (if isPaused state then state
      else
        (let c5 = orbCollection (tickBody e width height state)
         in (nextState c5)\<lparr>nodes := mutableNodes c5\<rparr>))"

section \<open>The initial world and the other actions\<close>

text \<open>
  \<open>NODE_IMAGE_MAP\<close> is declared in \<open>constants.ts\<close>, which is not among the sources;
  it is a parameter here, and \<open>firstImage\<close> reads its entry \<open>[0]\<close>.
\<close>

definition firstImage :: "(NodeType \<Rightarrow> string list) \<Rightarrow> NodeType \<Rightarrow> string option" where
  "firstImage imageMap t = (case imageMap t of [] \<Rightarrow> None | a # _ \<Rightarrow> Some a)"

definition initialProjectionState :: ProjectionState where
  "initialProjectionState =
     \<lparr>playerState = IDLE, aimAngle = 0, power_level = 0, reformTimer = 0\<rparr>"

definition planetNode ::
  "(NodeType \<Rightarrow> string list) \<Rightarrow> string \<Rightarrow> string \<Rightarrow> real \<Rightarrow> real \<Rightarrow> real \<Rightarrow> GameNode" where
  "planetNode imageMap ident lab px py r =
     \<lparr>n_id = ident, n_label = lab, n_type = rocky_planet, n_x = px, n_y = py,
      n_vx = 0, n_vy = 0, n_radius = r, n_connections = [], n_hasLife = False,
      n_imageUrl = firstImage imageMap rocky_planet,
      n_maxIntegrity = 2, n_currentIntegrity = 2, n_integrityCooldown = 0\<rparr>"

definition asteroidNode :: "nat \<Rightarrow> GameNode" where
  "asteroidNode i =
     (let angle = (real i / 8) * pi * 2; ring = 350
      in \<lparr>n_id = ''asteroid_ring_'' @ [char_of (48 + i)], n_label = ''Asteroid'',
          n_type = asteroid, n_x = cos angle * ring, n_y = sin angle * ring,
          n_vx = 0, n_vy = 0, n_radius = 15, n_connections = [], n_hasLife = False,
          n_imageUrl = None,
          n_maxIntegrity = 1000, n_currentIntegrity = 1000, n_integrityCooldown = 0\<rparr>)"

definition createInitialNodes :: "(NodeType \<Rightarrow> string list) \<Rightarrow> GameNode list" where
  "createInitialNodes imageMap =
     [\<lparr>n_id = ''player_consciousness'', n_label = ''You'', n_type = player_consciousness,
       n_x = 0, n_y = 300, n_vx = 0, n_vy = 0, n_radius = 20, n_connections = [],
       n_hasLife = False, n_imageUrl = firstImage imageMap player_consciousness,
       n_maxIntegrity = 100, n_currentIntegrity = 100, n_integrityCooldown = 0\<rparr>,
      planetNode imageMap ''tutorial_planet'' ''Silent World'' 0 (- 150) 25,
      \<lparr>n_id = ''central_star'', n_label = ''Prime Star'', n_type = star,
       n_x = 0, n_y = 0, n_vx = 0, n_vy = 0, n_radius = 40, n_connections = [],
       n_hasLife = False, n_imageUrl = firstImage imageMap star,
       n_maxIntegrity = 2, n_currentIntegrity = 2, n_integrityCooldown = 0\<rparr>]
     @ map asteroidNode [0..<8]
     @ [planetNode imageMap ''planet_left'' ''Barren Rock'' (- 250) (- 50) 20,
        planetNode imageMap ''planet_right'' ''Ice Giant'' 250 (- 50) 22]"

definition initialState :: "(NodeType \<Rightarrow> string list) \<Rightarrow> GameState" where
  "initialState imageMap =
     \<lparr>gameStarted = False, isPaused = False, energy = 50, knowledge = 10, biomass = 0,
      unity = 0, complexity = 0, data_total = 0, karma = 0, zoomLevel = 0,
      nodes = createInitialNodes imageMap, satellites = [], spaceDust = [],
      projection = initialProjectionState, turnHitIds = {}, energyOrbs = [],
      selectedNodeId = None, aimAssistTargetId = None, settings_aimAssist = True\<rparr>"

text \<open>
  The declarations of \<open>Upgrade\<close> (\<open>types.ts\<close>) and of the upgrades themselves
  (\<open>constants.ts\<close>) are not among the sources. An upgrade is a parameter of the
  action that buys it: its cost lists the resource totals it is paid from with their
  amounts, in the order of \<open>Object.keys\<close> and without the undefined entries, and its
  effect is any function of the state and the image.
\<close>

datatype Resource = Energy | Knowledge | Biomass | Unity | Complexity | Data

record Upgrade =
  u_id :: string
  u_cost :: "(Resource \<times> real) list"
  u_effect :: "GameState \<Rightarrow> string option \<Rightarrow> GameState"

text \<open>
  One constructor for each case of the reducer's \<open>switch\<close>, and \<open>UNKNOWN_ACTION\<close>
  for its \<open>default\<close>. The payloads of the actions that only write fields outside the
  model (tutorial, lore, notifications, milestones, chapters, inventory, saving, the
  settings other than aim assist) are left out. The payload of \<open>LOAD_GAME\<close> is
  \<open>None\<close> when the \<open>try\<close> block throws on it (no object, or one whose upgrade list
  or notifications cannot be iterated), and the loaded world otherwise. JSON has no
  sets, so a world written by \<open>SAVE_GAME\<close> comes back with a hit set that has no
  \<open>has\<close>; the model takes the loaded world as a \<open>GameState\<close>, with a usable hit set.
\<close>

datatype GameAction =
  START_GAME string
  | TICK real real
  | PURCHASE_UPGRADE Upgrade "string option"
  | ADVANCE_TUTORIAL
  | DISMISS_NOTIFICATION
  | MILESTONE_COMPLETE
  | START_LEVEL_TRANSITION
  | COMPLETE_LEVEL_TRANSITION
  | END_CHAPTER_TRANSITION
  | SELECT_NODE "string option"
  | SET_LORE_LOADING
  | SET_LORE_RESULT
  | CLEAR_LORE
  | SET_PAUSED bool
  | START_AIMING
  | SET_DIRECTION
  | LAUNCH_PLAYER
  | UPDATE_NODE_IMAGE string string
  | CHANGE_SETTING_aimAssist bool
  | CHANGE_SETTING_other
  | USE_ITEM
  | SAVE_GAME
  | LOAD_GAME "GameState option"
  | UNKNOWN_ACTION

text \<open>
  \<open>START_GAME\<close> spreads the module's object \<open>initialState\<close>. That object shares its
  arrays with the states built from it, and a tick on such a state pushes into them
  (a star orb into \<open>energyOrbs\<close>), so what \<open>START_GAME\<close> spreads is the object as it
  stands when the action runs: it is the parameter \<open>shared\<close>, and \<open>initialState\<close>
  above is its value when the module is loaded.
\<close>

definition startGame :: "GameState \<Rightarrow> env \<Rightarrow> string \<Rightarrow> GameState \<Rightarrow> GameState" where
  "startGame shared e playerImageUrl state =
     (case find isPlayerNode (nodes state) of
        None \<Rightarrow> state
      | Some pl \<Rightarrow>
          shared
            \<lparr>gameStarted := True,
             nodes := map (\<lambda>n. if n_id n = n_id pl
                                then n\<lparr>n_imageUrl := Some playerImageUrl\<rparr> else n)
                          (nodes state),
             spaceDust := createSpaceDust e 80 2000 2000\<rparr>)"

definition completeLevelTransition :: "env \<Rightarrow> GameState \<Rightarrow> GameState" where
  "completeLevelTransition e state =
     state\<lparr>zoomLevel := zoomLevel state + 1,
           nodes := (case find isPlayerNode (nodes state) of
                       None \<Rightarrow> [] | Some pl \<Rightarrow> [pl]),
           satellites := [], energyOrbs := [],
           spaceDust := createSpaceDust e 80 2000 2000\<rparr>"

definition selectNode :: "string option \<Rightarrow> GameState \<Rightarrow> GameState" where
  "selectNode nodeId state =
     (let newState = state\<lparr>selectedNodeId := nodeId\<rparr>
      in if truthy nodeId then newState\<lparr>aimAssistTargetId := nodeId\<rparr> else newState)"

definition startAiming :: "GameState \<Rightarrow> GameState" where
  "startAiming state =
     (if playerState (projection state) \<noteq> IDLE then state
      else state\<lparr>projection := (projection state)\<lparr>playerState := AIMING_DIRECTION\<rparr>\<rparr>)"

definition setDirection :: "GameState \<Rightarrow> GameState" where
  "setDirection state =
     (if playerState (projection state) \<noteq> AIMING_DIRECTION then state
      else
        (let player = find isPlayerNode (nodes state);
             target = find (\<lambda>n. Some (n_id n) = aimAssistTargetId state) (nodes state);
             finalAimAngle =
               (case (player, target) of
                  (Some pl, Some tg) \<Rightarrow> atan2 (n_y tg - n_y pl) (n_x tg - n_x pl)
                | _ \<Rightarrow> aimAngle (projection state))
         in state\<lparr>projection := (projection state)
               \<lparr>playerState := AIMING_POWER, aimAngle := finalAimAngle\<rparr>\<rparr>))"

definition launchPlayer :: "GameState \<Rightarrow> GameState" where
  "launchPlayer state =
     (if playerState (projection state) \<noteq> AIMING_POWER then state
      else
        (case find isPlayerNode (nodes state) of
           None \<Rightarrow> state
         | Some p \<Rightarrow>
             (let launchStrength = (power_level (projection state) / 100) * MAX_LAUNCH_POWER
              in state\<lparr>nodes := map (\<lambda>n. if n_id n = n_id p
                                           then n\<lparr>n_vx := cos (aimAngle (projection state)) * launchStrength,
                                                  n_vy := sin (aimAngle (projection state)) * launchStrength\<rparr>
                                           else n)
                                     (nodes state),
                       projection := (projection state)\<lparr>playerState := PROJECTING, power_level := 0\<rparr>,
                       turnHitIds := {}\<rparr>)))"

definition payCost :: "Resource \<times> real \<Rightarrow> GameState \<Rightarrow> GameState" where
  "payCost c state =
     (case fst c of
        Energy \<Rightarrow> state\<lparr>energy := energy state - snd c\<rparr>
      | Knowledge \<Rightarrow> state\<lparr>knowledge := knowledge state - snd c\<rparr>
      | Biomass \<Rightarrow> state\<lparr>biomass := biomass state - snd c\<rparr>
      | Unity \<Rightarrow> state\<lparr>unity := unity state - snd c\<rparr>
      | Complexity \<Rightarrow> state\<lparr>complexity := complexity state - snd c\<rparr>
      | Data \<Rightarrow> state\<lparr>data_total := data_total state - snd c\<rparr>)"

definition purchaseUpgrade :: "Upgrade \<Rightarrow> string option \<Rightarrow> GameState \<Rightarrow> GameState" where
  "purchaseUpgrade upgrade imageUrl state =
     u_effect upgrade (fold payCost (u_cost upgrade) state) imageUrl"

definition loadGame :: "GameState option \<Rightarrow> GameState \<Rightarrow> GameState" where
  "loadGame payload state =
     (case payload of
        None \<Rightarrow> state
      | Some loadedState \<Rightarrow> loadedState\<lparr>isPaused := False, gameStarted := True\<rparr>)"

definition gameReducer :: "GameState \<Rightarrow> env \<Rightarrow> GameAction \<Rightarrow> GameState \<Rightarrow> GameState" where
  "gameReducer shared e action state =
     (case action of
        START_GAME playerImageUrl \<Rightarrow> startGame shared e playerImageUrl state
      | TICK width height \<Rightarrow> tick e width height state
      | PURCHASE_UPGRADE upgrade imageUrl \<Rightarrow> purchaseUpgrade upgrade imageUrl state
      | ADVANCE_TUTORIAL \<Rightarrow> state
      | DISMISS_NOTIFICATION \<Rightarrow> state
      | MILESTONE_COMPLETE \<Rightarrow> state
      | START_LEVEL_TRANSITION \<Rightarrow> state
      | COMPLETE_LEVEL_TRANSITION \<Rightarrow> completeLevelTransition e state
      | END_CHAPTER_TRANSITION \<Rightarrow> state
      | SELECT_NODE nodeId \<Rightarrow> selectNode nodeId state
      | SET_LORE_LOADING \<Rightarrow> state
      | SET_LORE_RESULT \<Rightarrow> state
      | CLEAR_LORE \<Rightarrow> state
      | SET_PAUSED b \<Rightarrow> state\<lparr>isPaused := b\<rparr>
      | START_AIMING \<Rightarrow> startAiming state
      | SET_DIRECTION \<Rightarrow> setDirection state
      | LAUNCH_PLAYER \<Rightarrow> launchPlayer state
      | UPDATE_NODE_IMAGE nodeId imageUrl \<Rightarrow>
          state\<lparr>nodes := map (\<lambda>node. if n_id node = nodeId
                                      then node\<lparr>n_imageUrl := Some imageUrl\<rparr> else node)
                              (nodes state)\<rparr>
      | CHANGE_SETTING_aimAssist v \<Rightarrow> state\<lparr>settings_aimAssist := v\<rparr>
      | CHANGE_SETTING_other \<Rightarrow> state
      | USE_ITEM \<Rightarrow> state
      | SAVE_GAME \<Rightarrow> state
      | LOAD_GAME payload \<Rightarrow> loadGame payload state
      | UNKNOWN_ACTION \<Rightarrow> state)"

section \<open>Notions used in the statements\<close>

definition inContact :: "GameNode \<Rightarrow> GameNode \<Rightarrow> bool" where
  "inContact p node \<longleftrightarrow> n_id node \<noteq> n_id p \<and> touches p node"

definition contactIndex :: "GameNode list \<Rightarrow> nat \<Rightarrow> nat option" where
  "contactIndex ms pidx = findIndex (inContact (ms ! pidx)) ms"

definition atRest :: "GameNode \<Rightarrow> GameNode" where
  "atRest n = n\<lparr>n_x := 0, n_y := 0, n_vx := 0, n_vy := 0\<rparr>"

definition afterHit :: "GameNode \<Rightarrow> GameNode" where
  "afterHit n0 =
     (let n1 = struck n0
      in if n_currentIntegrity n1 \<le> 0 \<and> n_type n1 = star
         then n1\<lparr>n_currentIntegrity := n_maxIntegrity n1, n_integrityCooldown := 600\<rparr>
         else n1)"

definition planetLike :: "NodeType \<Rightarrow> bool" where
  "planetLike t \<longleftrightarrow> t = rocky_planet \<or> t = life_seed \<or> t = sentient_colony"

definition assimilated :: "GameNode \<Rightarrow> bool" where
  "assimilated n0 \<longleftrightarrow> n_currentIntegrity (struck n0) \<le> 0 \<and> planetLike (n_type n0)"

definition hitIndex :: "GameState \<Rightarrow> nat option" where
  "hitIndex s =
     (if isPaused s \<or> playerState (projection s) \<noteq> PROJECTING then None
      else (case findIndex isPlayerNode (nodes s) of
              None \<Rightarrow> None
            | Some pidx \<Rightarrow>
                (case contactIndex (nodes s) pidx of
                   None \<Rightarrow> None
                 | Some k \<Rightarrow> if n_integrityCooldown (nodes s ! k) \<le> 0 then Some k else None)))"

text \<open>The resources a standard hit on \<open>node\<close> pays out in state \<open>s\<close>.\<close>

definition paidBy :: "GameNode \<Rightarrow> GameState \<Rightarrow> real" where
  "paidBy node s =
     (energy (standardHit node s) - energy s)
     + (knowledge (standardHit node s) - knowledge s)
     + (biomass (standardHit node s) - biomass s)"

subsection \<open>A small concrete world\<close>

text \<open>
  An environment whose draws are all one half (no star orb is spawned), a node of
  radius 20 with integrity limit 2, and a running world around a list of nodes.
\<close>

definition calmEnv :: env where
  "calmEnv = \<lparr>now = 0, rnd = (\<lambda>_. 1 / 2)\<rparr>"

definition plainNode ::
  "string \<Rightarrow> NodeType \<Rightarrow> real \<Rightarrow> real \<Rightarrow> real \<Rightarrow> real \<Rightarrow> GameNode" where
  "plainNode ident t px py integrity cooldown =
     \<lparr>n_id = ident, n_label = ident, n_type = t, n_x = px, n_y = py, n_vx = 0, n_vy = 0,
      n_radius = 20, n_connections = [], n_hasLife = False, n_imageUrl = None,
      n_maxIntegrity = 2, n_currentIntegrity = integrity, n_integrityCooldown = cooldown\<rparr>"

definition plainWorld :: "PlayerState \<Rightarrow> GameNode list \<Rightarrow> GameState" where
  "plainWorld ps ns =
     \<lparr>gameStarted = True, isPaused = False, energy = 50, knowledge = 10, biomass = 0,
      unity = 0, complexity = 0, data_total = 0, karma = 0, zoomLevel = 0,
      nodes = ns, satellites = [], spaceDust = [],
      projection = \<lparr>playerState = ps, aimAngle = 0, power_level = 0, reformTimer = 0\<rparr>,
      turnHitIds = {}, energyOrbs = [],
      selectedNodeId = None, aimAssistTargetId = None, settings_aimAssist = True\<rparr>"

text \<open>The locals after the state machine, and the state after the passive accrual.\<close>

definition afterMachine :: "env \<Rightarrow> real \<Rightarrow> real \<Rightarrow> GameState \<Rightarrow> tick_locals" where
  "afterMachine e width height state =
     projectionStateMachine e width height (startLocals state)"

definition afterAccrual :: "env \<Rightarrow> real \<Rightarrow> real \<Rightarrow> GameState \<Rightarrow> GameState" where
  "afterAccrual e width height state =
     nextState (accrualStage (satelliteStage (afterMachine e width height state)))"

text \<open>
  The target as claim C2 words it: the first node in contact with the player whose
  cooldown has run out.
\<close>

definition claimedTarget :: "GameNode list \<Rightarrow> nat \<Rightarrow> nat option" where
  "claimedTarget ms pidx =
     findIndex (\<lambda>node. inContact (ms ! pidx) node \<and> n_integrityCooldown node \<le> 0) ms"

definition threeAtOrigin :: GameState where
  "threeAtOrigin =
     plainWorld PROJECTING
       [plainNode ''me'' player_consciousness 0 0 2 0,
        plainNode ''a'' star 0 0 2 5,
        plainNode ''b'' star 0 0 2 0]"

definition twoAtOrigin :: GameState where
  "twoAtOrigin =
     plainWorld PROJECTING
       [plainNode ''me'' player_consciousness 0 0 2 0, plainNode ''b'' star 0 0 2 0]"

text \<open>The component of a node's velocity along the direction \<open>a\<close>, and across it.\<close>

definition alongDir :: "real \<Rightarrow> GameNode \<Rightarrow> real" where
  "alongDir a node = n_vx node * cos a + n_vy node * sin a"

definition acrossDir :: "real \<Rightarrow> GameNode \<Rightarrow> real" where
  "acrossDir a node = n_vy node * cos a - n_vx node * sin a"

definition speedOf :: "GameNode \<Rightarrow> real" where
  "speedOf node = hypot (n_vx node) (n_vy node)"

definition centreDistance :: "GameNode \<Rightarrow> real" where
  "centreDistance node = sqrt (n_x node * n_x node + n_y node * n_y node)"

text \<open>A player beyond a boundary of radius 60, moving along the wall.\<close>

definition skimmingPlayer :: GameNode where
  "skimmingPlayer = (plainNode ''me'' player_consciousness 100 0 2 0)\<lparr>n_vy := 3\<rparr>"

text \<open>A rock beyond the same boundary, moving outwards.\<close>

definition driftingRock :: GameNode where
  "driftingRock = (plainNode ''rock'' asteroid 100 0 2 0)\<lparr>n_vx := 4\<rparr>"

text \<open>A resting player at the origin with one orb within reach and one far away.\<close>

definition nearOrb :: EnergyOrb where
  "nearOrb = \<lparr>o_id = OrbId 0 0, o_x = 10, o_y = 0, o_vx = 0, o_vy = 0, o_radius = 4, o_value = 10\<rparr>"

definition farOrb :: EnergyOrb where
  "farOrb = \<lparr>o_id = OrbId 0 1, o_x = 1000, o_y = 0, o_vx = 0, o_vy = 0, o_radius = 4, o_value = 10\<rparr>"

definition orbWorld :: "PlayerState \<Rightarrow> GameState" where
  "orbWorld ps =
     (plainWorld ps [plainNode ''me'' player_consciousness 0 0 2 0])\<lparr>energyOrbs := [nearOrb, farOrb]\<rparr>"

definition advanceSatellite :: "Satellite \<Rightarrow> Satellite" where
  "advanceSatellite sat = sat\<lparr>s_angle := s_angle sat + s_orbitSpeed sat\<rparr>"

text \<open>A projecting player in contact with a planet that has one point of integrity left.\<close>

definition captureWorld :: GameState where
  "captureWorld =
     plainWorld PROJECTING
       [plainNode ''me'' player_consciousness 0 0 2 0, plainNode ''rock'' rocky_planet 0 0 1 0]"

text \<open>
  A node other than an asteroid is \<open>vital\<close> when its integrity is positive and within
  its limit; \<open>onePlayer\<close> says that all nodes of type \<open>player_consciousness\<close> share
  one id, which holds when there is exactly one such node.
\<close>

definition vital :: "GameNode \<Rightarrow> bool" where
  "vital n \<longleftrightarrow>
     (n_type n \<noteq> asteroid \<longrightarrow> 0 < n_currentIntegrity n \<and> n_currentIntegrity n \<le> n_maxIntegrity n)"

definition onePlayer :: "GameNode list \<Rightarrow> bool" where
  "onePlayer ms \<longleftrightarrow>
     (\<forall>a\<in>set ms. \<forall>b\<in>set ms. isPlayerNode a \<and> isPlayerNode b \<longrightarrow> n_id a = n_id b)"

text \<open>A projecting player in contact with a star that has one point of integrity left.\<close>

definition novaWorld :: GameState where
  "novaWorld =
     plainWorld PROJECTING
       [plainNode ''me'' player_consciousness 0 0 2 0, plainNode ''sun'' star 0 0 1 0]"

text \<open>The five edges of the projection state machine, and staying put.\<close>

definition legalEdge :: "PlayerState \<Rightarrow> PlayerState \<Rightarrow> bool" where
  "legalEdge a b \<longleftrightarrow>
     a = b
     \<or> (a = IDLE \<and> b = AIMING_DIRECTION)
     \<or> (a = AIMING_DIRECTION \<and> b = AIMING_POWER)
     \<or> (a = AIMING_POWER \<and> b = PROJECTING)
     \<or> (a = PROJECTING \<and> b = REFORMING)
     \<or> (a = REFORMING \<and> b = IDLE)"

text \<open>
  The three actions that replace the world instead of changing it: \<open>START_GAME\<close>
  spreads the module's initial state, \<open>LOAD_GAME\<close> a saved world, and
  \<open>PURCHASE_UPGRADE\<close> returns whatever the upgrade's effect function returns.
\<close>

definition replacesWorld :: "GameAction \<Rightarrow> bool" where
  "replacesWorld a =
     (case a of START_GAME _ \<Rightarrow> True | LOAD_GAME _ \<Rightarrow> True | PURCHASE_UPGRADE _ _ \<Rightarrow> True
      | _ \<Rightarrow> False)"

text \<open>The initial world with no images, taken while the player is choosing the power.\<close>

definition aimingWorld :: GameState where
  "aimingWorld =
     (initialState (\<lambda>_. []))\<lparr>projection := initialProjectionState\<lparr>playerState := AIMING_POWER\<rparr>\<rparr>"

text \<open>
  The bounds of claim C5 on one node and on a world. A world within the bounds has
  its player nodes on one id, as the initial world has: the tick finds the player by
  type and tells the other nodes from it by id.
\<close>

definition sound :: "GameNode \<Rightarrow> bool" where
  "sound n \<longleftrightarrow> 0 \<le> n_currentIntegrity n \<and> n_currentIntegrity n \<le> n_maxIntegrity n"

definition wellFormed :: "GameState \<Rightarrow> bool" where
  "wellFormed s \<longleftrightarrow>
     onePlayer (nodes s) \<and> list_all sound (nodes s)
     \<and> 0 \<le> power_level (projection s) \<and> power_level (projection s) \<le> 100"

text \<open>
  What the three actions that replace the world bring in from outside the state:
  the power of the module's initial state for \<open>START_GAME\<close>, the saved world for
  \<open>LOAD_GAME\<close>, the world returned by the effect function for \<open>PURCHASE_UPGRADE\<close>.
  The bounds can only be kept if what comes in is within them.
\<close>

definition payloadInBounds :: "GameState \<Rightarrow> GameAction \<Rightarrow> GameState \<Rightarrow> bool" where
  "payloadInBounds shared a s =
     (case a of
        START_GAME _ \<Rightarrow>
          0 \<le> power_level (projection shared) \<and> power_level (projection shared) \<le> 100
      | LOAD_GAME payload \<Rightarrow> (case payload of None \<Rightarrow> True | Some saved \<Rightarrow> wellFormed saved)
      | PURCHASE_UPGRADE upgrade imageUrl \<Rightarrow>
          wellFormed (u_effect upgrade (fold payCost (u_cost upgrade) s) imageUrl)
      | _ \<Rightarrow> True)"

text \<open>A world with the player alone, choosing the power.\<close>

definition powerWorld :: GameState where
  "powerWorld = plainWorld AIMING_POWER [plainNode ''me'' player_consciousness 0 0 2 0]"



section \<open>Lemmas about the stages of the tick\<close>

lemma findIndex_None_iff: "findIndex P xs = None \<longleftrightarrow> (\<forall>a\<in>set xs. \<not> P a)"
  by (induction xs) auto

lemma findIndex_Some_iff:
  "findIndex P xs = Some k \<longleftrightarrow> k < length xs \<and> P (xs ! k) \<and> (\<forall>j<k. \<not> P (xs ! j))"
proof (induction xs arbitrary: k)
  case Nil
  show ?case by simp
next
  case (Cons a xs)
  show ?case
  proof (cases "P a")
    case True
    then show ?thesis by (cases k) auto
  next
    case False
    show ?thesis
    proof (cases k)
      case 0
      with False show ?thesis by auto
    next
      case (Suc m)
      have "(\<forall>j<Suc m. \<not> P ((a # xs) ! j)) \<longleftrightarrow> (\<forall>j<m. \<not> P (xs ! j))"
        using False by (auto simp: less_Suc_eq_0_disj)
      with False Suc Cons.IH [of m] show ?thesis by auto
    qed
  qed
qed

lemma nodeCollisionLoop_from:
  "nodeCollisionLoop e pidx rest i c =
     (case findIndex (inContact (mutableNodes c ! pidx)) rest of
        None \<Rightarrow> c
      | Some k \<Rightarrow> if n_integrityCooldown (rest ! k) \<le> 0 then collide e pidx (i + k) c else c)"
proof (induction rest arbitrary: i)
  case Nil
  show ?case by simp
next
  case (Cons node rest)
  show ?case
  proof (cases "inContact (mutableNodes c ! pidx) node")
    case True
    then show ?thesis by (simp add: inContact_def Let_def)
  next
    case False
    then have "nodeCollisionLoop e pidx (node # rest) i c = nodeCollisionLoop e pidx rest (Suc i) c"
      by (auto simp add: inContact_def Let_def)
    with False Cons.IH [of "Suc i"] show ?thesis
      by (simp split: option.split)
  qed
qed

lemma nodeCollisionLoop_contact:
  "nodeCollisionLoop e pidx (mutableNodes c) 0 c =
     (case contactIndex (mutableNodes c) pidx of
        None \<Rightarrow> c
      | Some k \<Rightarrow> if n_integrityCooldown (mutableNodes c ! k) \<le> 0 then collide e pidx k c else c)"
  by (simp add: nodeCollisionLoop_from contactIndex_def split: option.split)

subsection \<open>Closed forms of the accumulating loops\<close>

lemma fold_paySatellite:
  "fold paySatellite sats s
   = s\<lparr>energy := energy s + 0.1 * real (length sats),
        biomass := biomass s + 0.1 * real (length (filter (\<lambda>sat. s_type sat = life_seed) sats))\<rparr>"
  by (induction sats arbitrary: s) (simp_all add: paySatellite_def Let_def algebra_simps)

lemma satelliteLogic_eq:
  "satelliteLogic s =
     s\<lparr>energy := energy s + 0.1 * real (length (satellites s)),
       biomass := biomass s + 0.1 * real (length (filter (\<lambda>sat. s_type sat = life_seed) (satellites s))),
       satellites := map (\<lambda>sat. sat\<lparr>s_angle := s_angle sat + s_orbitSpeed sat\<rparr>) (satellites s)\<rparr>"
  by (simp add: satelliteLogic_def fold_paySatellite)

lemma fold_payStar:
  "fold payStar ns s
   = s\<lparr>energy := energy s + STAR_ENERGY_RATE * real (length (filter (\<lambda>n. n_type n = star) ns))\<rparr>"
  by (induction ns arbitrary: s) (simp_all add: payStar_def algebra_simps)

lemma resourceAccrual_eq:
  "resourceAccrual s =
     s\<lparr>knowledge := knowledge s + BASE_KNOWLEDGE_RATE,
       energy := energy s + STAR_ENERGY_RATE * real (length (filter (\<lambda>n. n_type n = star) (nodes s)))\<rparr>"
  by (simp add: resourceAccrual_def fold_payStar)

lemma fold_payOrb:
  "fold (payOrb p) orbs s
   = s\<lparr>energy := energy s + sum_list (map o_value (filter (orbInReach p) orbs))\<rparr>"
  by (induction orbs arbitrary: s) (simp_all add: payOrb_def algebra_simps)

lemma orbCollection_eq:
  "playerNode c = Some pidx \<Longrightarrow>
   orbCollection c =
     c\<lparr>nextState := (nextState c)
          \<lparr>energy := energy (nextState c)
             + sum_list (map o_value (filter (orbInReach (mutableNodes c ! pidx)) (energyOrbs (nextState c)))),
           energyOrbs := filter (\<lambda>orb. \<not> orbInReach (mutableNodes c ! pidx) orb) (energyOrbs (nextState c))\<rparr>\<rparr>"
  by (simp add: orbCollection_def fold_payOrb Let_def)

subsection \<open>What each stage leaves alone\<close>

lemma nodeStep_nextState:
  "nextState (nodeStep e W i c)
     = (nextState c)\<lparr>energyOrbs := energyOrbs (nextState (nodeStep e W i c))\<rparr>"
  by (simp add: nodeStep_def Let_def)

lemma fold_nodeStep_nextState:
  "nextState (fold (nodeStep e W) js c)
     = (nextState c)\<lparr>energyOrbs := energyOrbs (nextState (fold (nodeStep e W) js c))\<rparr>"
proof (induction js arbitrary: c)
  case Nil
  show ?case by simp
next
  case (Cons i js)
  let ?c1 = "nodeStep e W i c"
  let ?r = "fold (nodeStep e W) js ?c1"
  have "nextState ?r = (nextState ?c1)\<lparr>energyOrbs := energyOrbs (nextState ?r)\<rparr>"
    by (rule Cons.IH)
  also have "\<dots> = ((nextState c)\<lparr>energyOrbs := energyOrbs (nextState ?c1)\<rparr>)
                      \<lparr>energyOrbs := energyOrbs (nextState ?r)\<rparr>"
    using nodeStep_nextState [of e W i c] by simp
  also have "\<dots> = (nextState c)\<lparr>energyOrbs := energyOrbs (nextState ?r)\<rparr>"
    by simp
  finally show ?case by simp
qed

lemma nodePhysics_nextState:
  "nextState (nodePhysics e W c)
     = (nextState c)\<lparr>energyOrbs := energyOrbs (nextState (nodePhysics e W c))\<rparr>"
  unfolding nodePhysics_def by (rule fold_nodeStep_nextState)

lemma fold_nodeStep_playerNode:
  "playerNode (fold (nodeStep e W) js c) = playerNode c"
  by (induction js arbitrary: c) (simp_all add: nodeStep_def Let_def)

lemma nodePhysics_playerNode: "playerNode (nodePhysics e W c) = playerNode c"
  unfolding nodePhysics_def by (rule fold_nodeStep_playerNode)

text \<open>The physics changes position and velocity only.\<close>

lemma atRest_attract: "atRest (attract other n) = atRest n"
  by (simp add: attract_def atRest_def Let_def)

lemma atRest_fold_attract: "atRest (fold attract ms n) = atRest n"
  by (induction ms arbitrary: n) (simp_all add: atRest_attract)

lemma atRest_integrate: "atRest (integrate f n) = atRest n"
  by (simp add: integrate_def atRest_def)

lemma atRest_moveNode: "atRest (moveNode ps ms n) = atRest n"
  by (simp add: moveNode_def atRest_integrate atRest_fold_attract)

lemma atRest_boundaryCheck: "atRest (boundaryCheck W n) = atRest n"
  by (simp add: boundaryCheck_def atRest_def Let_def)

lemma nodeStep_atRest:
  "map atRest (mutableNodes (nodeStep e W i c)) = map atRest (mutableNodes c)"
proof -
  let ?ms = "mutableNodes c"
  let ?n = "boundaryCheck W (moveNode (playerState (projection (nextState c))) ?ms (?ms ! i))"
  have "map atRest (?ms[i := ?n]) = (map atRest ?ms)[i := atRest (?ms ! i)]"
    by (simp add: map_update atRest_boundaryCheck atRest_moveNode)
  also have "\<dots> = map atRest ?ms"
  proof (cases "i < length ?ms")
    case True
    then have "atRest (?ms ! i) = map atRest ?ms ! i" by simp
    then show ?thesis by (simp only: list_update_id)
  next
    case False
    then show ?thesis by (simp add: list_update_beyond)
  qed
  finally show ?thesis by (simp add: nodeStep_def Let_def)
qed

lemma fold_nodeStep_atRest:
  "map atRest (mutableNodes (fold (nodeStep e W) js c)) = map atRest (mutableNodes c)"
  by (induction js arbitrary: c) (simp_all add: nodeStep_atRest)

lemma nodePhysics_atRest:
  "map atRest (mutableNodes (nodePhysics e W c)) = map atRest (mutableNodes c)"
  unfolding nodePhysics_def by (rule fold_nodeStep_atRest)

lemma atRest_fields:
  "n_id (atRest n) = n_id n" "n_type (atRest n) = n_type n" "n_label (atRest n) = n_label n"
  "n_imageUrl (atRest n) = n_imageUrl n" "n_radius (atRest n) = n_radius n"
  "n_maxIntegrity (atRest n) = n_maxIntegrity n"
  "n_currentIntegrity (atRest n) = n_currentIntegrity n"
  "n_integrityCooldown (atRest n) = n_integrityCooldown n"
  by (simp_all add: atRest_def)

lemma struck_fields:
  "n_id (struck n) = n_id n" "n_type (struck n) = n_type n" "n_label (struck n) = n_label n"
  "n_imageUrl (struck n) = n_imageUrl n" "n_maxIntegrity (struck n) = n_maxIntegrity n"
  "n_radius (struck n) = n_radius n" "n_x (struck n) = n_x n" "n_y (struck n) = n_y n"
  "n_integrityCooldown (struck n) = 20"
  "n_currentIntegrity (struck n)
     = (if n_type n \<noteq> asteroid then n_currentIntegrity n - 1 else n_currentIntegrity n)"
  by (simp_all add: struck_def)

lemma atRest_bounceOff: "atRest (bounceOff node p) = atRest p"
  by (simp add: bounceOff_def atRest_def Let_def)

lemma atRest_scaleVelocity: "atRest (scaleVelocity f p) = atRest p"
  by (simp add: scaleVelocity_def atRest_def)

lemma map_update_same:
  "f a = f (xs ! i) \<Longrightarrow> map f (xs[i := a]) = map f xs"
proof (cases "i < length xs")
  case True
  assume "f a = f (xs ! i)"
  with True have "(map f xs)[i := f a] = map f xs"
    by (simp add: list_update_same_conv)
  then show ?thesis by (simp add: map_update)
next
  case False
  then show ?thesis by (simp add: list_update_beyond)
qed

lemma map_update_other:
  assumes "k \<noteq> i" and "f b = f (xs ! i)"
  shows "map f (xs[k := a, i := b]) = (map f xs)[k := f a]"
proof -
  have "f b = f (xs[k := a] ! i)" using assms by simp
  then have "map f (xs[k := a, i := b]) = map f (xs[k := a])"
    by (rule map_update_same)
  then show ?thesis by (simp add: map_update)
qed

lemma filter_atRest:
  "map atRest (filter (\<lambda>n. n_id n \<noteq> a) xs) = filter (\<lambda>n. n_id n \<noteq> a) (map atRest xs)"
  by (induction xs) (simp_all add: atRest_fields)

lemma collide_atRest:
  assumes "k \<noteq> pidx"
  shows "map atRest (mutableNodes (collide e pidx k c)) =
           (if assimilated (mutableNodes c ! k)
            then filter (\<lambda>n. n_id n \<noteq> n_id (mutableNodes c ! k)) (map atRest (mutableNodes c))
            else (map atRest (mutableNodes c))[k := atRest (afterHit (mutableNodes c ! k))])"
proof -
  let ?ms = "mutableNodes c"
  let ?n1 = "struck (?ms ! k)"
  let ?p1 = "bounceOff ?n1 (?ms ! pidx)"
  have upd: "\<And>a f. map atRest (?ms[k := a, pidx := scaleVelocity f ?p1]) = (map atRest ?ms)[k := atRest a]"
    using assms by (simp add: map_update_other atRest_scaleVelocity atRest_bounceOff)
  have upd1: "\<And>a. map atRest (?ms[k := a, pidx := ?p1]) = (map atRest ?ms)[k := atRest a]"
    using assms by (simp add: map_update_other atRest_bounceOff)
  have gone: "filter (\<lambda>n. n_id n \<noteq> n_id (?ms ! k)) ((map atRest ?ms)[k := atRest ?n1])
                = filter (\<lambda>n. n_id n \<noteq> n_id (?ms ! k)) (map atRest ?ms)"
  proof (cases "k < length ?ms")
    case True
    have "filter (\<lambda>n. n_id n \<noteq> n_id (?ms ! k)) (xs[j := atRest ?n1])
            = filter (\<lambda>n. n_id n \<noteq> n_id (?ms ! k)) xs"
      if "j < length xs" "n_id (xs ! j) = n_id (?ms ! k)" for xs :: "GameNode list" and j
      using that
    proof (induction xs arbitrary: j)
      case Nil
      then show ?case by simp
    next
      case (Cons a xs)
      then show ?case by (cases j) (simp_all add: atRest_fields struck_fields)
    qed
    from this [of k "map atRest ?ms"] True show ?thesis by (simp add: atRest_fields)
  next
    case False
    then show ?thesis by (simp add: list_update_beyond)
  qed
  show ?thesis
    unfolding collide_def Let_def
    by (simp add: upd upd1 gone filter_atRest afterHit_def assimilated_def planetLike_def
        struck_fields Let_def)
qed

lemma reformIfSlow_atRest:
  "map atRest (mutableNodes (reformIfSlow q c)) = map atRest (mutableNodes c)"
  by (simp add: reformIfSlow_def Let_def map_update_same atRest_def)

lemma reformIfSlow_playerNode: "playerNode (reformIfSlow q c) = playerNode c"
  by (simp add: reformIfSlow_def Let_def)

lemma collide_playerNode:
  "playerNode c = Some pidx \<Longrightarrow> \<exists>q. playerNode (collide e pidx k c) = Some q"
  by (simp add: collide_def Let_def)

lemma contactIndex_neq:
  "contactIndex ms pidx = Some k \<Longrightarrow> k \<noteq> pidx"
  by (auto simp add: contactIndex_def findIndex_Some_iff inContact_def)

lemma tickProjecting_loop:
  "tickProjecting e w h pidx c =
     (let c1 = c\<lparr>nextState := dustCollision e w h (mutableNodes c ! pidx) (nextState c)\<rparr>;
          c2 = (case contactIndex (mutableNodes c) pidx of
                  None \<Rightarrow> c1
                | Some k \<Rightarrow> if n_integrityCooldown (mutableNodes c ! k) \<le> 0
                            then collide e pidx k c1 else c1)
      in case playerNode c2 of None \<Rightarrow> c2 | Some pidx2 \<Rightarrow> reformIfSlow pidx2 c2)"
  unfolding tickProjecting_def Let_def nodeCollisionLoop_contact
  by (simp cong: option.case_cong)

lemma tickProjecting_atRest:
  assumes "playerNode c = Some pidx"
  shows "map atRest (mutableNodes (tickProjecting e w h pidx c)) =
           (case contactIndex (mutableNodes c) pidx of
              None \<Rightarrow> map atRest (mutableNodes c)
            | Some k \<Rightarrow>
                if n_integrityCooldown (mutableNodes c ! k) \<le> 0
                then (if assimilated (mutableNodes c ! k)
                      then filter (\<lambda>n. n_id n \<noteq> n_id (mutableNodes c ! k)) (map atRest (mutableNodes c))
                      else (map atRest (mutableNodes c))[k := atRest (afterHit (mutableNodes c ! k))])
                else map atRest (mutableNodes c))"
proof -
  let ?c1 = "c\<lparr>nextState := dustCollision e w h (mutableNodes c ! pidx) (nextState c)\<rparr>"
  have p1: "playerNode ?c1 = Some pidx" using assms by simp
  show ?thesis
  proof (cases "contactIndex (mutableNodes c) pidx")
    case None
    then show ?thesis
      using assms by (simp add: tickProjecting_loop reformIfSlow_atRest)
  next
    case (Some k)
    note k = this
    show ?thesis
    proof (cases "n_integrityCooldown (mutableNodes c ! k) \<le> 0")
      case False
      with k show ?thesis
        using assms by (simp add: tickProjecting_loop reformIfSlow_atRest)
    next
      case True
      obtain q where q: "playerNode (collide e pidx k ?c1) = Some q"
        using collide_playerNode [OF p1] by blast
      have "k \<noteq> pidx" using k by (rule contactIndex_neq)
      then have "map atRest (mutableNodes (collide e pidx k ?c1)) =
           (if assimilated (mutableNodes c ! k)
            then filter (\<lambda>n. n_id n \<noteq> n_id (mutableNodes c ! k)) (map atRest (mutableNodes c))
            else (map atRest (mutableNodes c))[k := atRest (afterHit (mutableNodes c ! k))])"
        using collide_atRest [of k pidx e ?c1] by simp
      with k True q show ?thesis
        by (simp add: tickProjecting_loop reformIfSlow_atRest)
    qed
  qed
qed

lemma projectionStateMachine_others:
  "playerState (projection (nextState c)) \<noteq> PROJECTING \<Longrightarrow>
   mutableNodes (projectionStateMachine e w h c) = mutableNodes c
   \<and> playerNode (projectionStateMachine e w h c) = playerNode c"
  by (cases "playerState (projection (nextState c))")
     (simp_all add: projectionStateMachine_def tickAimingDirection_def tickAimingPower_def
        tickReforming_def Let_def split: option.split)

lemma nodeCollisionLoop_playerNode:
  assumes "playerNode c = Some pidx"
  shows "\<exists>q. playerNode (nodeCollisionLoop e pidx rest i c) = Some q"
  using assms collide_playerNode [OF assms]
  by (simp add: nodeCollisionLoop_from split: option.split)

lemma tickProjecting_playerNode:
  assumes "playerNode c = Some pidx"
  shows "\<exists>q. playerNode (tickProjecting e w h pidx c) = Some q"
proof -
  let ?c1 = "c\<lparr>nextState := dustCollision e w h (mutableNodes c ! pidx) (nextState c)\<rparr>"
  have p1: "playerNode ?c1 = Some pidx" using assms by simp
  obtain q where "playerNode (nodeCollisionLoop e pidx (mutableNodes ?c1) 0 ?c1) = Some q"
    using nodeCollisionLoop_playerNode [OF p1] by blast
  then show ?thesis
    by (simp add: tickProjecting_def Let_def reformIfSlow_playerNode)
qed

lemma projectionStateMachine_playerNode:
  "(playerNode (projectionStateMachine e w h c) = None) = (playerNode c = None)"
proof (cases "playerNode c")
  case None
  then show ?thesis by (simp add: projectionStateMachine_def)
next
  case (Some pidx)
  show ?thesis
  proof (cases "playerState (projection (nextState c)) = PROJECTING")
    case True
    with Some tickProjecting_playerNode [OF Some, of e w h] show ?thesis
      by (auto simp add: projectionStateMachine_def)
  next
    case False
    with Some show ?thesis by (simp add: projectionStateMachine_others)
  qed
qed

lemma tick_atRest:
  "map atRest (nodes (tick e w h s)) =
     (case hitIndex s of
        None \<Rightarrow> map atRest (nodes s)
      | Some k \<Rightarrow>
          if assimilated (nodes s ! k)
          then filter (\<lambda>n. n_id n \<noteq> n_id (nodes s ! k)) (map atRest (nodes s))
          else (map atRest (nodes s))[k := atRest (afterHit (nodes s ! k))])"
proof (cases "isPaused s")
  case True
  then show ?thesis by (simp add: tick_def hitIndex_def)
next
  case False
  let ?c0 = "startLocals s"
  let ?c1 = "projectionStateMachine e w h ?c0"
  have c0: "nextState ?c0 = s" "mutableNodes ?c0 = nodes s"
    "playerNode ?c0 = findIndex isPlayerNode (nodes s)"
    by (simp_all add: startLocals_def)
  have body: "map atRest (nodes (tick e w h s)) = map atRest (mutableNodes ?c1)"
    using False
    by (simp add: tick_def tickBody_def Let_def orbCollection_def nodePhysics_atRest
          accrualStage_def satelliteStage_def split: option.split)
  show ?thesis
  proof (cases "playerState (projection s) = PROJECTING")
    case notproj: False
    then have "mutableNodes ?c1 = nodes s"
      using projectionStateMachine_others [of ?c0 e w h] c0 by simp
    with body notproj show ?thesis by (simp add: hitIndex_def)
  next
    case proj: True
    show ?thesis
    proof (cases "findIndex isPlayerNode (nodes s)")
      case None
      then have "?c1 = ?c0" using c0 by (simp add: projectionStateMachine_def)
      with body None False proj c0 show ?thesis by (simp add: hitIndex_def)
    next
      case (Some pidx)
      then have "?c1 = tickProjecting e w h pidx ?c0"
        using proj c0 by (simp add: projectionStateMachine_def)
      with body Some False proj c0 tickProjecting_atRest [of ?c0 pidx e w h]
      show ?thesis
        by (simp add: hitIndex_def split: option.split)
    qed
  qed
qed

subsection \<open>Fields of the state across the tick\<close>

lemma tickBody_nextState:
  "nextState (tickBody e w h s) =
     (afterAccrual e w h s)\<lparr>energyOrbs := energyOrbs (nextState (tickBody e w h s))\<rparr>"
  unfolding tickBody_def afterAccrual_def afterMachine_def
  by (rule nodePhysics_nextState)

lemma tickBody_playerNode:
  "playerNode (tickBody e w h s) = playerNode (afterMachine e w h s)"
  by (simp add: tickBody_def afterMachine_def nodePhysics_playerNode accrualStage_def
        satelliteStage_def split: option.split)

lemma field_of_update:
  "(t::GameState) = u\<lparr>energyOrbs := v\<rparr> \<Longrightarrow>
     knowledge t = knowledge u \<and> biomass t = biomass u \<and> energy t = energy u
     \<and> unity t = unity u \<and> complexity t = complexity u \<and> data_total t = data_total u
     \<and> karma t = karma u \<and> zoomLevel t = zoomLevel u \<and> projection t = projection u
     \<and> satellites t = satellites u \<and> spaceDust t = spaceDust u \<and> turnHitIds t = turnHitIds u
     \<and> isPaused t = isPaused u \<and> gameStarted t = gameStarted u
     \<and> selectedNodeId t = selectedNodeId u \<and> aimAssistTargetId t = aimAssistTargetId u
     \<and> settings_aimAssist t = settings_aimAssist u"
  by simp

lemmas tickBody_fields = field_of_update [OF tickBody_nextState]

lemma tick_knowledge:
  assumes "\<not> isPaused s"
  shows "knowledge (tick e w h s)
           = knowledge (nextState (afterMachine e w h s)) + BASE_KNOWLEDGE_RATE"
proof -
  have "knowledge (tick e w h s) = knowledge (nextState (tickBody e w h s))"
    using assms by (simp add: tick_def Let_def orbCollection_def fold_payOrb split: option.split)
  also have "\<dots> = knowledge (afterAccrual e w h s)"
    using tickBody_fields [of e w h s] by simp
  also have "\<dots> = knowledge (nextState (afterMachine e w h s)) + BASE_KNOWLEDGE_RATE"
    by (simp add: afterAccrual_def accrualStage_def satelliteStage_def resourceAccrual_eq
          dustPhysics_def satelliteLogic_eq split: option.split)
  finally show ?thesis .
qed

lemma machine_idle:
  "playerState (projection (nextState c)) = IDLE \<Longrightarrow> projectionStateMachine e w h c = c"
  by (simp add: projectionStateMachine_def split: option.split)

lemma startLocals_fields:
  "nextState (startLocals s) = s" "mutableNodes (startLocals s) = nodes s"
  "playerNode (startLocals s) = findIndex isPlayerNode (nodes s)"
  by (simp_all add: startLocals_def)

lemma map_field_atRest:
  "map n_currentIntegrity xs = map n_currentIntegrity (map atRest xs)"
  "map n_integrityCooldown xs = map n_integrityCooldown (map atRest xs)"
  "map n_id xs = map n_id (map atRest xs)"
  "map n_type xs = map n_type (map atRest xs)"
  by (simp_all add: atRest_fields)

lemma sqrt_sq_sum: "sqrt ((c * r) * (c * r) + (s * r) * (s * r)) = \<bar>r\<bar>" if "c\<^sup>2 + s\<^sup>2 = 1" for c s r :: real
proof -
  have "(c * r) * (c * r) + (s * r) * (s * r) = (c\<^sup>2 + s\<^sup>2) * r\<^sup>2"
    by (simp add: power2_eq_square algebra_simps)
  then show ?thesis using that by simp
qed

lemma boundaryCheck_beyond:
  assumes "centreDistance node > W - n_radius node"
  shows "boundaryCheck W node =
     (let a = atan2 (n_y node) (n_x node);
          node1 = node\<lparr>n_x := cos a * (W - n_radius node), n_y := sin a * (W - n_radius node)\<rparr>
      in if n_type node = player_consciousness
         then node1\<lparr>n_vx := n_vx node - 2.2 * alongDir a node * cos a,
                    n_vy := n_vy node - 2.2 * alongDir a node * sin a\<rparr>
         else node1\<lparr>n_vx := n_vx node * (- 0.5), n_vy := n_vy node * (- 0.5)\<rparr>)"
  using assms by (simp add: boundaryCheck_def centreDistance_def alongDir_def Let_def)

lemma reflect_sq:
  fixes vx vy c s k d :: real
  shows "(vx - k * d * c) * (vx - k * d * c) + (vy - k * d * s) * (vy - k * d * s)
         = (vx * vx + vy * vy) - 2 * k * d * (vx * c + vy * s) + k\<^sup>2 * d\<^sup>2 * (c\<^sup>2 + s\<^sup>2)"
  by (simp add: power2_eq_square algebra_simps)

lemma reflect_along:
  fixes vx vy c s k d :: real
  shows "(vx - k * d * c) * c + (vy - k * d * s) * s = (vx * c + vy * s) - k * d * (c\<^sup>2 + s\<^sup>2)"
  by (simp add: power2_eq_square algebra_simps)

lemma reflect_across:
  fixes vx vy c s k d :: real
  shows "(vy - k * d * s) * c - (vx - k * d * c) * s = vy * c - vx * s"
  by (simp add: algebra_simps)

lemma player_speed_sq:
  fixes vx vy c s :: real
  assumes "c\<^sup>2 + s\<^sup>2 = 1"
  shows "(vx - 2.2 * (vx * c + vy * s) * c) * (vx - 2.2 * (vx * c + vy * s) * c)
         + (vy - 2.2 * (vx * c + vy * s) * s) * (vy - 2.2 * (vx * c + vy * s) * s)
         = (vx * vx + vy * vy) + 0.44 * (vx * c + vy * s)\<^sup>2"
proof -
  define d where "d = vx * c + vy * s"
  have "(vx - 2.2 * d * c) * (vx - 2.2 * d * c) + (vy - 2.2 * d * s) * (vy - 2.2 * d * s)
        = (vx * vx + vy * vy) - 2 * 2.2 * d * (vx * c + vy * s) + (2.2)\<^sup>2 * d\<^sup>2 * (c\<^sup>2 + s\<^sup>2)"
    by (rule reflect_sq)
  also have "\<dots> = (vx * vx + vy * vy) - 4.4 * d\<^sup>2 + 4.84 * d\<^sup>2"
    unfolding assms d_def [symmetric] by (simp add: power2_eq_square)
  also have "\<dots> = (vx * vx + vy * vy) + 0.44 * d\<^sup>2"
    by simp
  finally show ?thesis unfolding d_def .
qed

lemma sqrt_values: "sqrt 10000 = 100" "sqrt 9 = 3" "sqrt 16 = 4"
  using real_sqrt_abs2 [of 100] real_sqrt_abs2 [of 3] real_sqrt_abs2 [of 4] by simp_all

lemma skimmingPlayer_checked:
  "boundaryCheck 60 skimmingPlayer = skimmingPlayer\<lparr>n_x := 40, n_y := 0\<rparr>"
  by (simp add: boundaryCheck_def skimmingPlayer_def plainNode_def atan2_def sqrt_values Let_def)

subsection \<open>Where the player's slot goes\<close>

lemma filter_nth_count:
  "i < length xs \<Longrightarrow> P (xs ! i) \<Longrightarrow>
   length (filter P (take i xs)) < length (filter P xs)
   \<and> filter P xs ! length (filter P (take i xs)) = xs ! i"
proof (induction xs arbitrary: i)
  case Nil
  then show ?case by simp
next
  case (Cons a xs)
  show ?case
  proof (cases i)
    case 0
    with Cons.prems show ?thesis by simp
  next
    case (Suc j)
    with Cons.prems Cons.IH [of j] show ?thesis by simp
  qed
qed

lemma findIndex_Some_nth:
  "findIndex P xs = Some i \<Longrightarrow> i < length xs \<and> P (xs ! i)"
  by (simp add: findIndex_Some_iff)

lemma collide_player_slot:
  assumes "playerNode c = Some pidx" and "pidx < length (mutableNodes c)"
    and "n_id (mutableNodes c ! k) \<noteq> n_id (mutableNodes c ! pidx)"
  shows "\<exists>q. playerNode (collide e pidx k c) = Some q
             \<and> q < length (mutableNodes (collide e pidx k c))
             \<and> atRest (mutableNodes (collide e pidx k c) ! q) = atRest (mutableNodes c ! pidx)"
proof -
  let ?ms = "mutableNodes c"
  let ?n1 = "struck (?ms ! k)"
  let ?p1 = "bounceOff ?n1 (?ms ! pidx)"
  have kp: "k \<noteq> pidx" using assms(3) by auto
  have same: "atRest ((?ms[k := a, pidx := p]) ! pidx) = atRest (?ms ! pidx)"
    if "atRest p = atRest (?ms ! pidx)" for a p
    using that assms(2) by simp
  have len: "pidx < length (?ms[k := a, pidx := p])" for a p
    using assms(2) by simp
  show ?thesis
  proof (cases "n_currentIntegrity ?n1 \<le> 0 \<and> planetLike (n_type ?n1)")
    case True
    let ?ms1 = "?ms[k := ?n1, pidx := scaleVelocity 0.6 ?p1]"
    let ?keep = "\<lambda>n. n_id n \<noteq> n_id ?n1"
    have kept: "?keep (?ms1 ! pidx)"
      using assms(2,3) by (simp add: struck_fields scaleVelocity_def bounceOff_def Let_def)
    have p: "pidx < length ?ms1" using assms(2) by simp
    from filter_nth_count [of pidx ?ms1 ?keep, OF p kept]
    have "length (filter ?keep (take pidx ?ms1)) < length (filter ?keep ?ms1)"
      and "filter ?keep ?ms1 ! length (filter ?keep (take pidx ?ms1)) = ?ms1 ! pidx"
      by simp_all
    moreover have "atRest (?ms1 ! pidx) = atRest (?ms ! pidx)"
      by (rule same) (simp add: atRest_scaleVelocity atRest_bounceOff)
    moreover have "collide e pidx k c =
        c\<lparr>nextState := (nextState c)\<lparr>nodes := filter ?keep (nodes (nextState c)),
               satellites := satellites (nextState c)
                   @ [newSatellite e ?n1 (satellites (nextState c))],
               biomass := biomass (nextState c) + 200\<rparr>,
          mutableNodes := filter ?keep ?ms1,
          playerNode := Some (length (filter ?keep (take pidx ?ms1)))\<rparr>"
      using True by (auto simp add: collide_def Let_def planetLike_def struck_fields)
    ultimately show ?thesis by simp
  next
    case False
    then have pn: "playerNode (collide e pidx k c) = Some pidx"
      using assms(1)
      by (cases "n_type (?ms ! k)")
         (simp_all add: collide_def Let_def planetLike_def struck_fields)
    from False have ln: "length (mutableNodes (collide e pidx k c)) = length ?ms"
      by (cases "n_type (?ms ! k)")
         (simp_all add: collide_def Let_def planetLike_def struck_fields)
    from False have "atRest (mutableNodes (collide e pidx k c) ! pidx) = atRest (?ms ! pidx)"
      using assms(2)
      by (cases "n_type (?ms ! k)")
         (simp_all add: collide_def Let_def planetLike_def struck_fields
            atRest_scaleVelocity atRest_bounceOff)
    with pn ln assms(2) show ?thesis by simp
  qed
qed

lemma reformIfSlow_slot:
  "q < length (mutableNodes c) \<Longrightarrow>
   length (mutableNodes (reformIfSlow q c)) = length (mutableNodes c)
   \<and> atRest (mutableNodes (reformIfSlow q c) ! q) = atRest (mutableNodes c ! q)"
  by (simp add: reformIfSlow_def Let_def atRest_def)

lemma tickProjecting_slot:
  assumes "playerNode c = Some pidx" and "pidx < length (mutableNodes c)"
  shows "\<exists>q. playerNode (tickProjecting e w h pidx c) = Some q
             \<and> q < length (mutableNodes (tickProjecting e w h pidx c))
             \<and> atRest (mutableNodes (tickProjecting e w h pidx c) ! q)
                 = atRest (mutableNodes c ! pidx)"
proof -
  let ?c1 = "c\<lparr>nextState := dustCollision e w h (mutableNodes c ! pidx) (nextState c)\<rparr>"
  let ?c2 = "case contactIndex (mutableNodes c) pidx of
                  None \<Rightarrow> ?c1
                | Some k \<Rightarrow> if n_integrityCooldown (mutableNodes c ! k) \<le> 0
                            then collide e pidx k ?c1 else ?c1"
  have "\<exists>q. playerNode ?c2 = Some q \<and> q < length (mutableNodes ?c2)
             \<and> atRest (mutableNodes ?c2 ! q) = atRest (mutableNodes c ! pidx)"
  proof (cases "contactIndex (mutableNodes c) pidx")
    case None
    then show ?thesis using assms by simp
  next
    case (Some k)
    then have "n_id (mutableNodes ?c1 ! k) \<noteq> n_id (mutableNodes ?c1 ! pidx)"
      by (simp add: contactIndex_def findIndex_Some_iff inContact_def)
    from collide_player_slot [of ?c1 pidx k e, OF _ _ this] assms Some
    show ?thesis by (cases "n_integrityCooldown (mutableNodes c ! k) \<le> 0") simp_all
  qed
  then obtain q where q: "playerNode ?c2 = Some q" "q < length (mutableNodes ?c2)"
      "atRest (mutableNodes ?c2 ! q) = atRest (mutableNodes c ! pidx)"
    by blast
  have "tickProjecting e w h pidx c = reformIfSlow q ?c2"
    using q(1) by (simp add: tickProjecting_loop Let_def)
  with q reformIfSlow_slot [OF q(2)] show ?thesis
    by (simp add: reformIfSlow_playerNode)
qed

lemma machine_slot:
  assumes "findIndex isPlayerNode (nodes s) = Some p0"
  shows "\<exists>q. playerNode (afterMachine e w h s) = Some q
             \<and> q < length (mutableNodes (afterMachine e w h s))
             \<and> atRest (mutableNodes (afterMachine e w h s) ! q) = atRest (nodes s ! p0)"
proof (cases "playerState (projection s) = PROJECTING")
  case True
  have "p0 < length (nodes s)" using assms by (simp add: findIndex_Some_iff)
  with tickProjecting_slot [of "startLocals s" p0 e w h] assms True show ?thesis
    by (simp add: afterMachine_def projectionStateMachine_def startLocals_fields)
next
  case False
  have "p0 < length (nodes s)" using assms by (simp add: findIndex_Some_iff)
  with projectionStateMachine_others [of "startLocals s" e w h] False assms show ?thesis
    by (simp add: afterMachine_def startLocals_fields)
qed

lemma tickBody_mutableNodes_atRest:
  "map atRest (mutableNodes (tickBody e w h s)) = map atRest (mutableNodes (afterMachine e w h s))"
  by (simp add: tickBody_def afterMachine_def nodePhysics_atRest accrualStage_def
        satelliteStage_def split: option.split)

lemma tickBody_slot:
  assumes "findIndex isPlayerNode (nodes s) = Some p0"
  shows "\<exists>q. playerNode (tickBody e w h s) = Some q
             \<and> q < length (mutableNodes (tickBody e w h s))
             \<and> atRest (mutableNodes (tickBody e w h s) ! q) = atRest (nodes s ! p0)"
proof -
  obtain q where q: "playerNode (afterMachine e w h s) = Some q"
      "q < length (mutableNodes (afterMachine e w h s))"
      "atRest (mutableNodes (afterMachine e w h s) ! q) = atRest (nodes s ! p0)"
    using machine_slot [OF assms] by blast
  have eq: "map atRest (mutableNodes (tickBody e w h s))
              = map atRest (mutableNodes (afterMachine e w h s))"
    by (rule tickBody_mutableNodes_atRest)
  then have len: "length (mutableNodes (tickBody e w h s))
                    = length (mutableNodes (afterMachine e w h s))"
    by (rule map_eq_imp_length_eq)
  have "atRest (mutableNodes (tickBody e w h s) ! q)
          = map atRest (mutableNodes (tickBody e w h s)) ! q"
    using q(2) len by simp
  also have "\<dots> = atRest (mutableNodes (afterMachine e w h s) ! q)"
    unfolding eq using q(2) by simp
  finally show ?thesis using q len by (simp add: tickBody_playerNode)
qed

subsection \<open>Orbs are only added before the pickup\<close>

lemma collide_orbs:
  "set (energyOrbs (nextState c)) \<subseteq> set (energyOrbs (nextState (collide e pidx k c)))"
  by (cases "n_type (mutableNodes c ! k)")
     (auto simp add: collide_def Let_def struck_fields standardHit_def)

lemma dustCollision_orbs: "energyOrbs (dustCollision e w h p s) = energyOrbs s"
  by (simp add: dustCollision_def Let_def)

lemma reformIfSlow_orbs: "energyOrbs (nextState (reformIfSlow q c)) = energyOrbs (nextState c)"
  by (simp add: reformIfSlow_def Let_def)

lemma tickProjecting_orbs:
  "set (energyOrbs (nextState c)) \<subseteq> set (energyOrbs (nextState (tickProjecting e w h pidx c)))"
proof -
  let ?c1 = "c\<lparr>nextState := dustCollision e w h (mutableNodes c ! pidx) (nextState c)\<rparr>"
  have "set (energyOrbs (nextState c)) \<subseteq> set (energyOrbs (nextState (collide e pidx k ?c1)))" for k
    using collide_orbs [of ?c1 e pidx k] by (simp add: dustCollision_orbs)
  then show ?thesis
    by (auto simp add: tickProjecting_loop Let_def reformIfSlow_orbs dustCollision_orbs
          split: option.split)
qed

lemma projectionStateMachine_orbs:
  "set (energyOrbs (nextState c))
     \<subseteq> set (energyOrbs (nextState (projectionStateMachine e w h c)))"
proof (cases "playerNode c")
  case None
  then show ?thesis by (simp add: projectionStateMachine_def)
next
  case (Some pidx)
  then show ?thesis
    using tickProjecting_orbs [of c e w h pidx]
    by (cases "playerState (projection (nextState c))")
       (simp_all add: projectionStateMachine_def tickAimingDirection_def tickAimingPower_def
          tickReforming_def Let_def)
qed

lemma fold_nodeStep_orbs:
  "set (energyOrbs (nextState c))
     \<subseteq> set (energyOrbs (nextState (fold (nodeStep e W) js c)))"
proof (induction js arbitrary: c)
  case Nil
  show ?case by simp
next
  case (Cons i js)
  have "set (energyOrbs (nextState c)) \<subseteq> set (energyOrbs (nextState (nodeStep e W i c)))"
    by (auto simp add: nodeStep_def starOrb_def Let_def)
  with Cons.IH [of "nodeStep e W i c"] show ?case by auto
qed

lemma tickBody_orbs:
  "set (energyOrbs s) \<subseteq> set (energyOrbs (nextState (tickBody e w h s)))"
proof -
  let ?c1 = "projectionStateMachine e w h (startLocals s)"
  let ?c3 = "accrualStage (satelliteStage ?c1)"
  have "set (energyOrbs s) \<subseteq> set (energyOrbs (nextState ?c1))"
    using projectionStateMachine_orbs [of "startLocals s" e w h] by (simp add: startLocals_fields)
  also have "energyOrbs (nextState ?c1) = energyOrbs (nextState ?c3)"
    by (simp add: accrualStage_def satelliteStage_def resourceAccrual_eq dustPhysics_def
          satelliteLogic_eq split: option.split)
  also have "set (energyOrbs (nextState ?c3)) \<subseteq> set (energyOrbs (nextState (tickBody e w h s)))"
    unfolding tickBody_def nodePhysics_def by (rule fold_nodeStep_orbs)
  finally show ?thesis .
qed

lemma sqrt_more_values: "sqrt 100 = 10" "sqrt 1000000 = 1000"
  using real_sqrt_abs2 [of 10] real_sqrt_abs2 [of 1000] by simp_all

subsection \<open>Satellites across the tick\<close>

lemma collide_satellites:
  "satellites (nextState (collide e pidx k c)) =
     (if assimilated (mutableNodes c ! k)
      then satellites (nextState c)
             @ [newSatellite e (struck (mutableNodes c ! k)) (satellites (nextState c))]
      else satellites (nextState c))"
  by (cases "n_type (mutableNodes c ! k)")
     (simp_all add: collide_def Let_def assimilated_def planetLike_def struck_fields
        standardHit_def)

lemma dustCollision_satellites: "satellites (dustCollision e w h p s) = satellites s"
  by (simp add: dustCollision_def Let_def)

lemma reformIfSlow_satellites:
  "satellites (nextState (reformIfSlow q c)) = satellites (nextState c)"
  by (simp add: reformIfSlow_def Let_def)

lemma hitIndex_SomeD:
  assumes "hitIndex s = Some k"
  shows "\<not> isPaused s \<and> playerState (projection s) = PROJECTING
     \<and> (\<exists>pidx. findIndex isPlayerNode (nodes s) = Some pidx
               \<and> contactIndex (nodes s) pidx = Some k)
     \<and> n_integrityCooldown (nodes s ! k) \<le> 0 \<and> k < length (nodes s)"
proof -
  from assms have a: "\<not> isPaused s" "playerState (projection s) = PROJECTING"
    by (auto simp add: hitIndex_def split: if_splits)
  with assms obtain pidx where p: "findIndex isPlayerNode (nodes s) = Some pidx"
    by (cases "findIndex isPlayerNode (nodes s)") (auto simp add: hitIndex_def)
  with assms a have c: "contactIndex (nodes s) pidx = Some k"
      "n_integrityCooldown (nodes s ! k) \<le> 0"
    by (auto simp add: hitIndex_def split: option.splits if_splits)
  then have "k < length (nodes s)"
    by (simp add: contactIndex_def findIndex_Some_iff)
  with a p c show ?thesis by simp
qed

lemma machine_hit:
  assumes "hitIndex s = Some k"
  shows "\<exists>pidx q. findIndex isPlayerNode (nodes s) = Some pidx
           \<and> contactIndex (nodes s) pidx = Some k
           \<and> afterMachine e w h s
               = reformIfSlow q (collide e pidx k
                   ((startLocals s)\<lparr>nextState := dustCollision e w h (nodes s ! pidx) s\<rparr>))"
proof -
  from hitIndex_SomeD [OF assms] obtain pidx where
    a: "playerState (projection s) = PROJECTING"
      "findIndex isPlayerNode (nodes s) = Some pidx"
      "contactIndex (nodes s) pidx = Some k"
      "n_integrityCooldown (nodes s ! k) \<le> 0"
    by blast
  let ?c1 = "(startLocals s)\<lparr>nextState := dustCollision e w h (nodes s ! pidx) s\<rparr>"
  have "playerNode ?c1 = Some pidx" using a(2) by (simp add: startLocals_fields)
  then obtain q where q: "playerNode (collide e pidx k ?c1) = Some q"
    using collide_playerNode by blast
  have "afterMachine e w h s = tickProjecting e w h pidx (startLocals s)"
    using a(1,2) by (simp add: afterMachine_def projectionStateMachine_def startLocals_fields)
  also have "\<dots> = reformIfSlow q (collide e pidx k ?c1)"
    using a(3,4) q by (simp add: tickProjecting_loop Let_def startLocals_fields)
  finally show ?thesis using a by blast
qed

lemma tick_satellites:
  assumes "\<not> isPaused s" and "findIndex isPlayerNode (nodes s) = Some p0"
  shows "satellites (tick e w h s)
           = map advanceSatellite (satellites (nextState (afterMachine e w h s)))"
proof -
  obtain q where q: "playerNode (afterMachine e w h s) = Some q"
    using machine_slot [OF assms(2)] by blast
  have "satellites (tick e w h s) = satellites (nextState (tickBody e w h s))"
    using assms(1) by (simp add: tick_def Let_def orbCollection_def fold_payOrb split: option.split)
  also have "\<dots> = satellites (afterAccrual e w h s)"
    using tickBody_fields [of e w h s] by simp
  also have "\<dots> = map advanceSatellite (satellites (nextState (afterMachine e w h s)))"
    using q
    by (simp add: afterAccrual_def accrualStage_def satelliteStage_def resourceAccrual_eq
          dustPhysics_def satelliteLogic_eq advanceSatellite_def)
  finally show ?thesis .
qed

lemma tick_satellites_hit:
  assumes "hitIndex s = Some k"
  shows "satellites (tick e w h s) =
     map advanceSatellite
       (if assimilated (nodes s ! k)
        then satellites s @ [newSatellite e (struck (nodes s ! k)) (satellites s)]
        else satellites s)"
proof -
  from machine_hit [OF assms, of e w h] obtain pidx q where
    a: "findIndex isPlayerNode (nodes s) = Some pidx"
      "afterMachine e w h s
         = reformIfSlow q (collide e pidx k
             ((startLocals s)\<lparr>nextState := dustCollision e w h (nodes s ! pidx) s\<rparr>))"
    by blast
  have np: "\<not> isPaused s" using hitIndex_SomeD [OF assms] by simp
  show ?thesis
    unfolding tick_satellites [OF np a(1)] a(2)
    by (simp add: reformIfSlow_satellites collide_satellites dustCollision_satellites
          startLocals_fields)
qed

lemma ids_atRest: "n_id ` set xs = n_id ` set (map atRest xs)"
  by (simp add: image_image atRest_fields)

lemma disjoint_after:
  "A' \<subseteq> A \<Longrightarrow> a \<notin> A' \<Longrightarrow> A \<inter> B = {} \<Longrightarrow> A' \<inter> insert a B = {}"
  by auto

lemma hitIndex_captureWorld:
  "hitIndex captureWorld = Some 1" "assimilated (nodes captureWorld ! 1)"
  "nodes captureWorld ! 1 = plainNode ''rock'' rocky_planet 0 0 1 0"
  "satellites captureWorld = []"
  by (simp_all add: hitIndex_def contactIndex_def captureWorld_def plainWorld_def plainNode_def
        inContact_def touches_def hypot_def isPlayerNode_def assimilated_def planetLike_def
        struck_def)

subsection \<open>Properties of the nodes that do not depend on position or velocity\<close>

lemma atRest_member:
  assumes "map atRest xs = map atRest ys" and "a \<in> set xs"
  shows "\<exists>b\<in>set ys. atRest b = atRest a"
proof -
  have "atRest a \<in> set (map atRest xs)" using assms(2) by simp
  then have "atRest a \<in> set (map atRest ys)" using assms(1) by simp
  then show ?thesis by auto
qed

lemma hit_not_player:
  assumes "onePlayer (nodes s)" and "hitIndex s = Some k"
  shows "\<not> isPlayerNode (nodes s ! k)"
proof
  assume pl: "isPlayerNode (nodes s ! k)"
  from hitIndex_SomeD [OF assms(2)] obtain pidx where
    p: "findIndex isPlayerNode (nodes s) = Some pidx" "contactIndex (nodes s) pidx = Some k"
      "k < length (nodes s)"
    by blast
  from p(1) have pp: "pidx < length (nodes s)" "isPlayerNode (nodes s ! pidx)"
    by (simp_all add: findIndex_Some_iff)
  from p(2) have "n_id (nodes s ! k) \<noteq> n_id (nodes s ! pidx)"
    by (simp add: contactIndex_def findIndex_Some_iff inContact_def)
  moreover have "n_id (nodes s ! k) = n_id (nodes s ! pidx)"
    using assms(1) pl pp p(3) by (simp add: onePlayer_def)
  ultimately show False by simp
qed

text \<open>Every node of the returned registry is, up to position and velocity, a node of
  the incoming one or the node that was hit, as the handler left it.\<close>

lemma tick_node_origin:
  assumes "n \<in> set (nodes (tick e w h s))"
  shows "(\<exists>m\<in>set (nodes s). atRest n = atRest m)
       \<or> (\<exists>k. hitIndex s = Some k \<and> \<not> assimilated (nodes s ! k)
               \<and> atRest n = atRest (afterHit (nodes s ! k)))"
proof -
  have n: "atRest n \<in> set (map atRest (nodes (tick e w h s)))" using assms by simp
  show ?thesis
  proof (cases "hitIndex s")
    case None
    with n tick_atRest [of e w h s] show ?thesis by auto
  next
    case (Some k)
    show ?thesis
    proof (cases "assimilated (nodes s ! k)")
      case True
      with Some n tick_atRest [of e w h s] show ?thesis by auto
    next
      case False
      with Some n tick_atRest [of e w h s]
      have "atRest n \<in> set ((map atRest (nodes s))[k := atRest (afterHit (nodes s ! k))])"
        by simp
      then have "atRest n = atRest (afterHit (nodes s ! k)) \<or> atRest n \<in> set (map atRest (nodes s))"
        using set_update_subset_insert [of "map atRest (nodes s)" k] by auto
      with Some False show ?thesis by auto
    qed
  qed
qed

lemma vital_atRest: "atRest n = atRest m \<Longrightarrow> vital n = vital m"
  unfolding vital_def using atRest_fields(2,6,7) by metis

lemma vital_afterHit:
  assumes "vital n0" and "\<not> assimilated n0" and "\<not> isPlayerNode n0"
  shows "vital (afterHit n0)"
  using assms
  by (cases "n_type n0")
     (auto simp add: vital_def afterHit_def assimilated_def planetLike_def isPlayerNode_def
        struck_fields Let_def)

lemma nth_of_map_eq:
  assumes "map f xs = ys" and "k < length ys"
  shows "k < length xs \<and> f (xs ! k) = ys ! k"
  using assms by auto

lemma hitIndex_novaWorld:
  "hitIndex novaWorld = Some 1" "\<not> assimilated (nodes novaWorld ! 1)"
  "n_type (nodes novaWorld ! 1) = star" "n_currentIntegrity (nodes novaWorld ! 1) - 1 \<le> 0"
  "n_maxIntegrity (nodes novaWorld ! 1) = 2" "n_id (nodes novaWorld ! 1) = ''sun''"
  by (simp_all add: hitIndex_def contactIndex_def novaWorld_def plainWorld_def plainNode_def
        inContact_def touches_def hypot_def isPlayerNode_def assimilated_def planetLike_def
        struck_def)

subsection \<open>The projection across the tick\<close>

lemma collide_projection:
  "projection (nextState (collide e pidx k c)) = projection (nextState c)"
  by (cases "n_type (mutableNodes c ! k)")
     (simp_all add: collide_def Let_def struck_fields standardHit_def)

lemma dustCollision_projection: "projection (dustCollision e w h p s) = projection s"
  by (simp add: dustCollision_def Let_def)

lemma reformIfSlow_projection:
  "projection (nextState (reformIfSlow q c)) = projection (nextState c)
   \<or> projection (nextState (reformIfSlow q c))
       = (projection (nextState c))\<lparr>playerState := REFORMING, reformTimer := REFORM_DURATION\<rparr>"
  by (simp add: reformIfSlow_def Let_def)

lemma tickProjecting_projection:
  "projection (nextState (tickProjecting e w h pidx c)) = projection (nextState c)
   \<or> projection (nextState (tickProjecting e w h pidx c))
       = (projection (nextState c))\<lparr>playerState := REFORMING, reformTimer := REFORM_DURATION\<rparr>"
proof -
  let ?c1 = "c\<lparr>nextState := dustCollision e w h (mutableNodes c ! pidx) (nextState c)\<rparr>"
  let ?c2 = "case contactIndex (mutableNodes c) pidx of
                  None \<Rightarrow> ?c1
                | Some k \<Rightarrow> if n_integrityCooldown (mutableNodes c ! k) \<le> 0
                            then collide e pidx k ?c1 else ?c1"
  have c2: "projection (nextState ?c2) = projection (nextState c)"
    by (simp add: collide_projection dustCollision_projection split: option.split)
  show ?thesis
  proof (cases "playerNode ?c2")
    case None
    then show ?thesis using c2 by (simp add: tickProjecting_loop Let_def)
  next
    case (Some q)
    then have "tickProjecting e w h pidx c = reformIfSlow q ?c2"
      by (simp add: tickProjecting_loop Let_def)
    with reformIfSlow_projection [of q ?c2] c2 show ?thesis by simp
  qed
qed

lemma machine_projection:
  "playerState (projection (nextState c)) = PROJECTING \<Longrightarrow>
   projection (nextState (projectionStateMachine e w h c)) = projection (nextState c)
   \<or> projection (nextState (projectionStateMachine e w h c))
       = (projection (nextState c))\<lparr>playerState := REFORMING, reformTimer := REFORM_DURATION\<rparr>"
  using tickProjecting_projection [of e w h _ c]
  by (cases "playerNode c") (simp_all add: projectionStateMachine_def)

lemma machine_playerState:
  "legalEdge (playerState (projection (nextState c)))
     (playerState (projection (nextState (projectionStateMachine e w h c))))"
proof (cases "playerState (projection (nextState c))")
  case PROJECTING
  with machine_projection [OF PROJECTING, of e w h] show ?thesis
    by (auto simp add: legalEdge_def)
next
  case IDLE
  then show ?thesis by (simp add: machine_idle legalEdge_def)
next
  case AIMING_DIRECTION
  then show ?thesis
    by (cases "playerNode c")
       (simp_all add: projectionStateMachine_def tickAimingDirection_def Let_def legalEdge_def)
next
  case AIMING_POWER
  then show ?thesis
    by (cases "playerNode c")
       (simp_all add: projectionStateMachine_def tickAimingPower_def Let_def legalEdge_def)
next
  case REFORMING
  then show ?thesis
    by (cases "playerNode c")
       (simp_all add: projectionStateMachine_def tickReforming_def Let_def legalEdge_def)
qed

lemma oscillation_bounds:
  fixes x :: real
  assumes "- 1 \<le> x" and "x \<le> 1"
  shows "0 \<le> (x + 1) * 50 \<and> (x + 1) * 50 \<le> 100"
  using assms by auto

lemma machine_power:
  assumes "0 \<le> power_level (projection (nextState c))"
    and "power_level (projection (nextState c)) \<le> 100"
  shows "0 \<le> power_level (projection (nextState (projectionStateMachine e w h c)))
       \<and> power_level (projection (nextState (projectionStateMachine e w h c))) \<le> 100"
proof (cases "playerState (projection (nextState c))")
  case PROJECTING
  with machine_projection [OF PROJECTING, of e w h] assms show ?thesis by auto
next
  case IDLE
  then show ?thesis using assms by (simp add: machine_idle)
next
  case AIMING_DIRECTION
  then show ?thesis using assms
    by (cases "playerNode c")
       (simp_all add: projectionStateMachine_def tickAimingDirection_def Let_def)
next
  case AIMING_POWER
  have "0 \<le> (sin (now e / (1000 / POWER_OSCILLATION_SPEED)) + 1) * 50
      \<and> (sin (now e / (1000 / POWER_OSCILLATION_SPEED)) + 1) * 50 \<le> 100"
    by (rule oscillation_bounds) (rule sin_ge_minus_one, rule sin_le_one)
  with AIMING_POWER assms show ?thesis
    by (cases "playerNode c")
       (simp_all add: projectionStateMachine_def tickAimingPower_def Let_def)
next
  case REFORMING
  then show ?thesis using assms
    by (cases "playerNode c")
       (simp_all add: projectionStateMachine_def tickReforming_def Let_def)
qed

lemma tick_projection:
  assumes "\<not> isPaused s"
  shows "projection (tick e w h s) = projection (nextState (afterMachine e w h s))"
proof -
  have "projection (tick e w h s) = projection (nextState (tickBody e w h s))"
    using assms by (simp add: tick_def Let_def orbCollection_def fold_payOrb split: option.split)
  also have "\<dots> = projection (afterAccrual e w h s)"
    using tickBody_fields [of e w h s] by simp
  also have "\<dots> = projection (nextState (afterMachine e w h s))"
    by (simp add: afterAccrual_def accrualStage_def satelliteStage_def resourceAccrual_eq
          dustPhysics_def satelliteLogic_eq split: option.split)
  finally show ?thesis .
qed

lemma tick_playerState:
  "legalEdge (playerState (projection s)) (playerState (projection (tick e w h s)))"
proof (cases "isPaused s")
  case True
  then show ?thesis by (simp add: tick_def legalEdge_def)
next
  case False
  with machine_playerState [of "startLocals s" e w h] show ?thesis
    by (simp add: tick_projection afterMachine_def startLocals_fields)
qed

subsection \<open>The tick keeps a world well formed\<close>

lemma atRest_eqD:
  assumes "atRest n = atRest m"
  shows "n_id n = n_id m" "n_type n = n_type m"
    "n_currentIntegrity n = n_currentIntegrity m" "n_maxIntegrity n = n_maxIntegrity m"
    "n_integrityCooldown n = n_integrityCooldown m"
proof -
  have "n_id (atRest n) = n_id (atRest m)" "n_type (atRest n) = n_type (atRest m)"
    "n_currentIntegrity (atRest n) = n_currentIntegrity (atRest m)"
    "n_maxIntegrity (atRest n) = n_maxIntegrity (atRest m)"
    "n_integrityCooldown (atRest n) = n_integrityCooldown (atRest m)"
    by (simp_all only: assms)
  then show "n_id n = n_id m" "n_type n = n_type m"
    "n_currentIntegrity n = n_currentIntegrity m" "n_maxIntegrity n = n_maxIntegrity m"
    "n_integrityCooldown n = n_integrityCooldown m"
    by (simp_all only: atRest_fields)
qed

lemma afterHit_fields:
  "n_id (afterHit n) = n_id n" "n_type (afterHit n) = n_type n"
  by (simp_all add: afterHit_def struck_fields Let_def)

lemma tick_node_id_type:
  assumes "n \<in> set (nodes (tick e w h s))"
  shows "\<exists>m\<in>set (nodes s). n_id n = n_id m \<and> n_type n = n_type m"
proof -
  from tick_node_origin [OF assms] show ?thesis
  proof (elim disjE bexE exE conjE)
    fix m assume m: "m \<in> set (nodes s)" "atRest n = atRest m"
    have "n_id n = n_id m \<and> n_type n = n_type m"
      using atRest_eqD(1,2) [OF m(2)] by (rule conjI)
    then show ?thesis using m(1) by (rule bexI)
  next
    fix k assume k: "hitIndex s = Some k" "atRest n = atRest (afterHit (nodes s ! k))"
    have mem: "nodes s ! k \<in> set (nodes s)" using hitIndex_SomeD [OF k(1)] by simp
    have "n_id n = n_id (afterHit (nodes s ! k))" "n_type n = n_type (afterHit (nodes s ! k))"
      by (rule atRest_eqD(1) [OF k(2)], rule atRest_eqD(2) [OF k(2)])
    then have "n_id n = n_id (nodes s ! k) \<and> n_type n = n_type (nodes s ! k)"
      by (simp only: afterHit_fields)
    then show ?thesis using mem by (rule bexI)
  qed
qed

lemma onePlayerI:
  "(\<And>a b. a \<in> set ms \<Longrightarrow> b \<in> set ms \<Longrightarrow> isPlayerNode a \<Longrightarrow> isPlayerNode b
            \<Longrightarrow> n_id a = n_id b) \<Longrightarrow> onePlayer ms"
  unfolding onePlayer_def by blast

lemma onePlayerD:
  "onePlayer ms \<Longrightarrow> a \<in> set ms \<Longrightarrow> b \<in> set ms \<Longrightarrow> isPlayerNode a \<Longrightarrow> isPlayerNode b
   \<Longrightarrow> n_id a = n_id b"
  unfolding onePlayer_def by blast

lemma tick_onePlayer:
  assumes "onePlayer (nodes s)"
  shows "onePlayer (nodes (tick e w h s))"
proof (rule onePlayerI)
  fix a b
  assume a: "a \<in> set (nodes (tick e w h s))" and b: "b \<in> set (nodes (tick e w h s))"
    and pa: "isPlayerNode a" and pb: "isPlayerNode b"
  from tick_node_id_type [OF a] obtain a' where
    a': "a' \<in> set (nodes s)" "n_id a = n_id a'" "n_type a = n_type a'"
    by (elim bexE conjE)
  from tick_node_id_type [OF b] obtain b' where
    b': "b' \<in> set (nodes s)" "n_id b = n_id b'" "n_type b = n_type b'"
    by (elim bexE conjE)
  have pa': "isPlayerNode a'"
    using pa unfolding isPlayerNode_def a'(3) .
  have pb': "isPlayerNode b'"
    using pb unfolding isPlayerNode_def b'(3) .
  have "n_id a = n_id a'" by (rule a'(2))
  also have "\<dots> = n_id b'" by (rule onePlayerD [OF assms a'(1) b'(1) pa' pb'])
  also have "\<dots> = n_id b" by (rule b'(2) [symmetric])
  finally show "n_id a = n_id b" .
qed

lemma sound_atRest:
  assumes "atRest n = atRest m"
  shows "sound n = sound m"
  by (simp only: sound_def atRest_eqD(3,4) [OF assms])

lemma sound_afterHit:
  assumes "sound n0" and "\<not> assimilated n0" and "\<not> isPlayerNode n0"
  shows "sound (afterHit n0)"
  using assms
  by (cases "n_type n0")
     (auto simp add: sound_def afterHit_def assimilated_def planetLike_def isPlayerNode_def
        struck_fields Let_def)

lemma tick_sound:
  assumes "onePlayer (nodes s)" and "list_all sound (nodes s)"
  shows "list_all sound (nodes (tick e w h s))"
  unfolding list_all_iff
proof
  fix n assume "n \<in> set (nodes (tick e w h s))"
  from tick_node_origin [OF this] consider
    (old) m where "m \<in> set (nodes s)" "atRest n = atRest m"
    | (hit) k where "hitIndex s = Some k" "\<not> assimilated (nodes s ! k)"
        "atRest n = atRest (afterHit (nodes s ! k))"
    by blast
  then show "sound n"
  proof cases
    case old
    with assms(2) sound_atRest [OF old(2)] show ?thesis by (simp add: list_all_iff)
  next
    case hit
    have "k < length (nodes s)" using hitIndex_SomeD [OF hit(1)] by simp
    then have "sound (nodes s ! k)" using assms(2) by (simp add: list_all_iff)
    then have "sound (afterHit (nodes s ! k))"
      using hit(2) hit_not_player [OF assms(1) hit(1)] by (rule sound_afterHit)
    with sound_atRest [OF hit(3)] show ?thesis by simp
  qed
qed

lemma tick_power:
  assumes "0 \<le> power_level (projection s)" and "power_level (projection s) \<le> 100"
  shows "0 \<le> power_level (projection (tick e w h s))
       \<and> power_level (projection (tick e w h s)) \<le> 100"
proof (cases "isPaused s")
  case True
  then show ?thesis using assms by (simp add: tick_def)
next
  case False
  with machine_power [of "startLocals s" e w h] assms show ?thesis
    by (simp add: tick_projection afterMachine_def startLocals_fields)
qed

lemma tick_wellFormed:
  assumes "wellFormed s"
  shows "wellFormed (tick e w h s)"
proof -
  from assms have a: "onePlayer (nodes s)" "list_all sound (nodes s)"
    "0 \<le> power_level (projection s)" "power_level (projection s) \<le> 100"
    by (simp_all add: wellFormed_def)
  show ?thesis
    unfolding wellFormed_def
    using tick_onePlayer [OF a(1)] tick_sound [OF a(1,2)] tick_power [OF a(3,4)] by simp
qed

subsection \<open>The other actions keep a world well formed\<close>

lemma onePlayer_map:
  assumes "onePlayer ms" and "\<And>n. n_id (f n) = n_id n" and "\<And>n. n_type (f n) = n_type n"
  shows "onePlayer (map f ms)"
proof (rule onePlayerI)
  fix a b
  assume a: "a \<in> set (map f ms)" and b: "b \<in> set (map f ms)"
    and pa: "isPlayerNode a" and pb: "isPlayerNode b"
  from a obtain a' where a': "a' \<in> set ms" "a = f a'" by auto
  from b obtain b' where b': "b' \<in> set ms" "b = f b'" by auto
  have "isPlayerNode a'" using pa unfolding a'(2) isPlayerNode_def assms(3) .
  moreover have "isPlayerNode b'" using pb unfolding b'(2) isPlayerNode_def assms(3) .
  ultimately have "n_id a' = n_id b'" using onePlayerD [OF assms(1) a'(1) b'(1)] by simp
  then show "n_id a = n_id b" unfolding a'(2) b'(2) assms(2) .
qed

lemma sound_map:
  assumes "list_all sound ms"
    and "\<And>n. n_currentIntegrity (f n) = n_currentIntegrity n"
    and "\<And>n. n_maxIntegrity (f n) = n_maxIntegrity n"
  shows "list_all sound (map f ms)"
  using assms(1) by (simp add: list_all_iff sound_def assms(2,3))

lemma onePlayer_subset:
  assumes "onePlayer ms" and "set ks \<subseteq> set ms"
  shows "onePlayer ks"
proof (rule onePlayerI)
  fix a b
  assume "a \<in> set ks" "b \<in> set ks" "isPlayerNode a" "isPlayerNode b"
  with assms(2) onePlayerD [OF assms(1), of a b] show "n_id a = n_id b" by auto
qed

lemma found_player_subset:
  "set (case find isPlayerNode ms of None \<Rightarrow> [] | Some pl \<Rightarrow> [pl]) \<subseteq> set ms"
proof (cases "find isPlayerNode ms")
  case None
  then show ?thesis by simp
next
  case (Some pl)
  then have "pl \<in> set ms" by (auto simp add: find_Some_iff)
  with Some show ?thesis by simp
qed

lemma wellFormed_initialState: "wellFormed (initialState im)"
proof -
  have ids: "\<forall>a\<in>set (createInitialNodes im). isPlayerNode a \<longrightarrow> n_id a = ''player_consciousness''"
    by (simp add: createInitialNodes_def planetNode_def asteroidNode_def isPlayerNode_def Let_def)
  have "onePlayer (createInitialNodes im)"
  proof (rule onePlayerI)
    fix a b
    assume "a \<in> set (createInitialNodes im)" "b \<in> set (createInitialNodes im)"
      "isPlayerNode a" "isPlayerNode b"
    with ids have "n_id a = ''player_consciousness''" "n_id b = ''player_consciousness''"
      by blast+
    then show "n_id a = n_id b" by simp
  qed
  moreover have "list_all sound (createInitialNodes im)"
    by (simp add: createInitialNodes_def planetNode_def asteroidNode_def sound_def Let_def
          list_all_iff)
  ultimately show ?thesis
    by (simp add: wellFormed_def initialState_def initialProjectionState_def)
qed

lemma gameReducer_wellFormed:
  assumes "wellFormed s" and "payloadInBounds shared a s"
  shows "wellFormed (gameReducer shared e a s)"
proof -
  from assms(1) have s: "onePlayer (nodes s)" "list_all sound (nodes s)"
    "0 \<le> power_level (projection s)" "power_level (projection s) \<le> 100"
    by (simp_all add: wellFormed_def)
  show ?thesis
  proof (cases a)
    case (START_GAME url)
    show ?thesis
    proof (cases "find isPlayerNode (nodes s)")
      case None
      with START_GAME assms(1) show ?thesis by (simp add: gameReducer_def startGame_def)
    next
      case (Some pl)
      let ?f = "\<lambda>n. if n_id n = n_id pl then n\<lparr>n_imageUrl := Some url\<rparr> else n"
      have "onePlayer (map ?f (nodes s))" by (rule onePlayer_map [OF s(1)]) simp_all
      moreover have "list_all sound (map ?f (nodes s))" by (rule sound_map [OF s(2)]) simp_all
      ultimately show ?thesis
        using START_GAME Some assms(2)
        by (simp add: gameReducer_def startGame_def wellFormed_def payloadInBounds_def)
    qed
  next
    case (TICK w h)
    then show ?thesis using tick_wellFormed [OF assms(1)] by (simp add: gameReducer_def)
  next
    case (PURCHASE_UPGRADE u url)
    then show ?thesis using assms(2)
      by (simp add: gameReducer_def purchaseUpgrade_def payloadInBounds_def)
  next
    case COMPLETE_LEVEL_TRANSITION
    let ?ks = "case find isPlayerNode (nodes s) of None \<Rightarrow> [] | Some pl \<Rightarrow> [pl]"
    have sub: "set ?ks \<subseteq> set (nodes s)" by (rule found_player_subset)
    have "onePlayer ?ks" using s(1) sub by (rule onePlayer_subset)
    moreover have "list_all sound ?ks" using s(2) sub by (auto simp add: list_all_iff)
    ultimately show ?thesis
      using COMPLETE_LEVEL_TRANSITION s(3,4)
      by (simp add: gameReducer_def completeLevelTransition_def wellFormed_def)
  next
    case (SELECT_NODE x)
    then show ?thesis using assms(1)
      by (simp add: gameReducer_def selectNode_def wellFormed_def Let_def)
  next
    case (SET_PAUSED x)
    then show ?thesis using assms(1) by (simp add: gameReducer_def wellFormed_def)
  next
    case START_AIMING
    then show ?thesis using assms(1)
      by (simp add: gameReducer_def startAiming_def wellFormed_def)
  next
    case SET_DIRECTION
    then show ?thesis using assms(1)
      by (simp add: gameReducer_def setDirection_def wellFormed_def Let_def)
  next
    case LAUNCH_PLAYER
    show ?thesis
    proof (cases "playerState (projection s) = AIMING_POWER \<and> find isPlayerNode (nodes s) \<noteq> None")
      case False
      with LAUNCH_PLAYER assms(1) show ?thesis
        by (auto simp add: gameReducer_def launchPlayer_def)
    next
      case True
      then obtain p where p: "find isPlayerNode (nodes s) = Some p" by auto
      have "onePlayer (map (\<lambda>n. if n_id n = n_id p then n\<lparr>n_vx := vx, n_vy := vy\<rparr> else n)
                         (nodes s))" for vx vy
        by (rule onePlayer_map [OF s(1)]) simp_all
      moreover have "list_all sound (map (\<lambda>n. if n_id n = n_id p then n\<lparr>n_vx := vx, n_vy := vy\<rparr>
                                             else n) (nodes s))" for vx vy
        by (rule sound_map [OF s(2)]) simp_all
      ultimately show ?thesis
        using LAUNCH_PLAYER True p
        by (simp add: gameReducer_def launchPlayer_def wellFormed_def Let_def)
    qed
  next
    case (UPDATE_NODE_IMAGE nodeId url)
    let ?f = "\<lambda>node. if n_id node = nodeId then node\<lparr>n_imageUrl := Some url\<rparr> else node"
    have "onePlayer (map ?f (nodes s))" by (rule onePlayer_map [OF s(1)]) simp_all
    moreover have "list_all sound (map ?f (nodes s))" by (rule sound_map [OF s(2)]) simp_all
    ultimately show ?thesis
      using UPDATE_NODE_IMAGE s(3,4) by (simp add: gameReducer_def wellFormed_def)
  next
    case (CHANGE_SETTING_aimAssist x)
    then show ?thesis using assms(1) by (simp add: gameReducer_def wellFormed_def)
  next
    case (LOAD_GAME payload)
    then show ?thesis using assms
      by (cases payload) (simp_all add: gameReducer_def loadGame_def wellFormed_def
            payloadInBounds_def)
  qed (use assms(1) in \<open>simp_all add: gameReducer_def\<close>)
qed

subsection \<open>The node at one index after the physics\<close>







subsection \<open>An idle tick\<close>








subsection \<open>Two ticks that write an integrity and the power\<close>

lemma tick_novaWorld_star:
  "n_currentIntegrity (nodes (tick e w h novaWorld) ! 1) = 2"
  "n_maxIntegrity (nodes (tick e w h novaWorld) ! 1) = 2"
proof -
  let ?ys = "(map atRest (nodes novaWorld))[1 := atRest (afterHit (nodes novaWorld ! 1))]"
  have eq: "map atRest (nodes (tick e w h novaWorld)) = ?ys"
    using tick_atRest [of e w h novaWorld] hitIndex_novaWorld(1,2) by simp
  have "1 < length ?ys" by (simp add: novaWorld_def plainWorld_def)
  from nth_of_map_eq [OF eq this]
  have a: "atRest (nodes (tick e w h novaWorld) ! 1) = atRest (afterHit (nodes novaWorld ! 1))"
    by (simp add: novaWorld_def plainWorld_def)
  have "n_currentIntegrity (atRest (afterHit (nodes novaWorld ! 1))) = 2"
    "n_maxIntegrity (atRest (afterHit (nodes novaWorld ! 1))) = 2"
    using hitIndex_novaWorld(3,4,5)
    by (simp_all add: atRest_fields afterHit_def struck_fields Let_def)
  then show "n_currentIntegrity (nodes (tick e w h novaWorld) ! 1) = 2"
    "n_maxIntegrity (nodes (tick e w h novaWorld) ! 1) = 2"
    using atRest_fields(6,7) [of "nodes (tick e w h novaWorld) ! 1"] unfolding a by simp_all
qed

lemma tick_powerWorld:
  "power_level (projection powerWorld) = 0"
  "power_level (projection (tick calmEnv w h powerWorld)) = 50"
proof -
  show "power_level (projection powerWorld) = 0"
    by (simp add: powerWorld_def plainWorld_def)
  have np: "\<not> isPaused powerWorld" by (simp add: powerWorld_def plainWorld_def)
  have pn: "playerNode (startLocals powerWorld) = Some 0"
    by (simp add: startLocals_fields powerWorld_def plainWorld_def plainNode_def
          isPlayerNode_def)
  have ps: "playerState (projection (nextState (startLocals powerWorld))) = AIMING_POWER"
    by (simp add: startLocals_fields powerWorld_def plainWorld_def)
  have "afterMachine calmEnv w h powerWorld = tickAimingPower calmEnv (startLocals powerWorld)"
    using pn ps by (simp add: afterMachine_def projectionStateMachine_def)
  then show "power_level (projection (tick calmEnv w h powerWorld)) = 50"
    using tick_projection [OF np, of calmEnv w h]
    by (simp add: tickAimingPower_def calmEnv_def Let_def)
qed

subsection \<open>One idle tick, and what it hands to the next\<close>





section \<open>C7: a combo hit pays more than a first hit\<close>

text \<open>
  Claim C7. For every node type, the standard-hit reward paid when the node's id is
  already in the hit set of the current launch is strictly greater than the reward
  paid for a first hit on that node: 200 against 100 energy for a star, 20 against
  10 knowledge for an asteroid, 100 against 50 biomass for every other type.
\<close>

theorem combo_pays_more:
  "n_id node \<in> turnHitIds s1 \<Longrightarrow> n_id node \<notin> turnHitIds s0 \<Longrightarrow>
   paidBy node s0 < paidBy node s1"
  by (simp add: paidBy_def standardHit_def hitReward_def Let_def)

theorem combo_pays_more_witness:
  "''sun'' \<in> turnHitIds ((plainWorld PROJECTING [])\<lparr>turnHitIds := {''sun''}\<rparr>)
   \<and> ''sun'' \<notin> turnHitIds (plainWorld PROJECTING [])
   \<and> paidBy (plainNode ''sun'' star 0 0 2 0) (plainWorld PROJECTING []) = 100
   \<and> paidBy (plainNode ''sun'' star 0 0 2 0)
        ((plainWorld PROJECTING [])\<lparr>turnHitIds := {''sun''}\<rparr>) = 200
   \<and> paidBy (plainNode ''sun'' star 0 0 2 0) (plainWorld PROJECTING [])
       < paidBy (plainNode ''sun'' star 0 0 2 0)
           ((plainWorld PROJECTING [])\<lparr>turnHitIds := {''sun''}\<rparr>)"
  using combo_pays_more [of "plainNode ''sun'' star 0 0 2 0"
      "(plainWorld PROJECTING [])\<lparr>turnHitIds := {''sun''}\<rparr>" "plainWorld PROJECTING []"]
  by (simp add: paidBy_def standardHit_def hitReward_def plainNode_def plainWorld_def Let_def)

section \<open>C1: the harmony multiplier\<close>

text \<open>
  Claim C1 says that the passive knowledge accrual of a tick is multiplied by 1.25
  when karma exceeds 50. The tick computes \<open>harmonyBonus\<close> and then adds the base
  rate alone: with karma 60 an idle tick takes knowledge from 10 to 10.1, the same
  as with karma 0, where the claim gives 10.125.
\<close>

theorem harmony_bonus_never_applied:
  "knowledge (tick calmEnv 1000 1000
      ((plainWorld IDLE [plainNode ''me'' player_consciousness 0 0 2 0])\<lparr>karma := 60\<rparr>))
     = 10 + BASE_KNOWLEDGE_RATE
   \<and> knowledge (tick calmEnv 1000 1000
      ((plainWorld IDLE [plainNode ''me'' player_consciousness 0 0 2 0])\<lparr>karma := 60\<rparr>))
     = knowledge (tick calmEnv 1000 1000
      ((plainWorld IDLE [plainNode ''me'' player_consciousness 0 0 2 0])\<lparr>karma := 0\<rparr>))
   \<and> HARMONY_THRESHOLD < karma ((plainWorld IDLE [plainNode ''me'' player_consciousness 0 0 2 0])\<lparr>karma := 60\<rparr>)"
proof -
  have idle: "nextState (afterMachine e w h ((plainWorld IDLE ns)\<lparr>karma := k\<rparr>))
                = (plainWorld IDLE ns)\<lparr>karma := k\<rparr>" for e w h ns k
    by (simp add: afterMachine_def machine_idle startLocals_fields plainWorld_def)
  have "knowledge (tick e w h ((plainWorld IDLE ns)\<lparr>karma := k\<rparr>)) = 10 + BASE_KNOWLEDGE_RATE"
    for e w h ns k
    using tick_knowledge [of "(plainWorld IDLE ns)\<lparr>karma := k\<rparr>" e w h]
    by (simp add: idle) (simp add: plainWorld_def)
  then show ?thesis by (simp add: HARMONY_THRESHOLD_def)
qed

section \<open>C2: which node a projecting tick collides with\<close>

text \<open>
  Claim C2 says that the collision of a projecting tick is resolved against the first
  node in contact with the player whose cooldown has run out. The loop stops at the
  first node in contact, whatever its cooldown: with a star \<open>a\<close> in contact and
  cooling down ahead of a star \<open>b\<close> in contact and ready, the claim's target is
  \<open>b\<close> (index 2), the tick resolves no collision, and \<open>b\<close> keeps its integrity and
  its cooldown.
\<close>

theorem later_qualifying_node_is_not_hit:
  "claimedTarget (nodes threeAtOrigin) 0 = Some 2
   \<and> hitIndex threeAtOrigin = None
   \<and> map n_currentIntegrity (nodes (tick calmEnv 1000 1000 threeAtOrigin)) = [2, 2, 2]
   \<and> map n_integrityCooldown (nodes (tick calmEnv 1000 1000 threeAtOrigin)) = [0, 5, 0]"
proof -
  have t: "claimedTarget (nodes threeAtOrigin) 0 = Some 2"
    by (simp add: claimedTarget_def threeAtOrigin_def plainWorld_def plainNode_def
          inContact_def touches_def hypot_def)
  have h: "hitIndex threeAtOrigin = None"
    by (simp add: hitIndex_def contactIndex_def threeAtOrigin_def plainWorld_def plainNode_def
          inContact_def touches_def hypot_def isPlayerNode_def)
  have "map atRest (nodes (tick calmEnv 1000 1000 threeAtOrigin)) = map atRest (nodes threeAtOrigin)"
    using tick_atRest [of calmEnv 1000 1000 threeAtOrigin] by (simp add: h)
  then have "map n_currentIntegrity (nodes (tick calmEnv 1000 1000 threeAtOrigin))
               = map n_currentIntegrity (nodes threeAtOrigin)"
    and "map n_integrityCooldown (nodes (tick calmEnv 1000 1000 threeAtOrigin))
               = map n_integrityCooldown (nodes threeAtOrigin)"
    using map_field_atRest(1) [of "nodes (tick calmEnv 1000 1000 threeAtOrigin)"]
          map_field_atRest(1) [of "nodes threeAtOrigin"]
          map_field_atRest(2) [of "nodes (tick calmEnv 1000 1000 threeAtOrigin)"]
          map_field_atRest(2) [of "nodes threeAtOrigin"]
    by simp_all
  with t h show ?thesis
    by (simp add: threeAtOrigin_def plainWorld_def plainNode_def)
qed

text \<open>
  Claim C2, amended. The only candidate of the loop is the first node, in the order
  of the registry and skipping nodes with the player's id, whose centre distance to
  the player is less than the sum of the radii. If its cooldown has run out its
  collision is resolved; otherwise no collision is resolved in that tick. With no
  node in contact nothing is resolved. So at most one collision is resolved per tick,
  and the iteration stops at the first node in contact.
\<close>

theorem first_contact_decides:
  "((\<forall>j<length (mutableNodes c). \<not> inContact (mutableNodes c ! pidx) (mutableNodes c ! j))
      \<longrightarrow> nodeCollisionLoop e pidx (mutableNodes c) 0 c = c)
   \<and> (\<forall>k<length (mutableNodes c).
         inContact (mutableNodes c ! pidx) (mutableNodes c ! k)
         \<and> (\<forall>j<k. \<not> inContact (mutableNodes c ! pidx) (mutableNodes c ! j))
         \<longrightarrow> nodeCollisionLoop e pidx (mutableNodes c) 0 c
               = (if n_integrityCooldown (mutableNodes c ! k) \<le> 0
                  then collide e pidx k c else c))"
proof (intro conjI impI allI)
  assume "\<forall>j<length (mutableNodes c). \<not> inContact (mutableNodes c ! pidx) (mutableNodes c ! j)"
  then have "contactIndex (mutableNodes c) pidx = None"
    by (auto simp add: contactIndex_def findIndex_None_iff in_set_conv_nth)
  then show "nodeCollisionLoop e pidx (mutableNodes c) 0 c = c"
    by (simp add: nodeCollisionLoop_contact)
next
  fix k
  assume "k < length (mutableNodes c)"
    and "inContact (mutableNodes c ! pidx) (mutableNodes c ! k)
         \<and> (\<forall>j<k. \<not> inContact (mutableNodes c ! pidx) (mutableNodes c ! j))"
  then have "contactIndex (mutableNodes c) pidx = Some k"
    by (simp add: contactIndex_def findIndex_Some_iff)
  then show "nodeCollisionLoop e pidx (mutableNodes c) 0 c
               = (if n_integrityCooldown (mutableNodes c ! k) \<le> 0
                  then collide e pidx k c else c)"
    by (simp add: nodeCollisionLoop_contact)
qed

theorem first_contact_decides_witness:
  "1 < length (mutableNodes (startLocals threeAtOrigin))
   \<and> inContact (mutableNodes (startLocals threeAtOrigin) ! 0)
                (mutableNodes (startLocals threeAtOrigin) ! 1)
   \<and> \<not> inContact (mutableNodes (startLocals threeAtOrigin) ! 0)
                  (mutableNodes (startLocals threeAtOrigin) ! 0)
   \<and> n_integrityCooldown (mutableNodes (startLocals threeAtOrigin) ! 1) = 5
   \<and> nodeCollisionLoop calmEnv 0 (mutableNodes (startLocals threeAtOrigin)) 0
         (startLocals threeAtOrigin) = startLocals threeAtOrigin
   \<and> n_integrityCooldown (mutableNodes (startLocals twoAtOrigin) ! 1) = 0
   \<and> nodeCollisionLoop calmEnv 0 (mutableNodes (startLocals twoAtOrigin)) 0
         (startLocals twoAtOrigin) = collide calmEnv 0 1 (startLocals twoAtOrigin)"
proof -
  have a: "1 < length (mutableNodes (startLocals threeAtOrigin))"
    "inContact (mutableNodes (startLocals threeAtOrigin) ! 0)
                (mutableNodes (startLocals threeAtOrigin) ! 1)"
    "\<not> inContact (mutableNodes (startLocals threeAtOrigin) ! 0)
                  (mutableNodes (startLocals threeAtOrigin) ! 0)"
    "n_integrityCooldown (mutableNodes (startLocals threeAtOrigin) ! 1) = 5"
    by (simp_all add: startLocals_def threeAtOrigin_def plainWorld_def plainNode_def
          inContact_def touches_def hypot_def)
  have b: "1 < length (mutableNodes (startLocals twoAtOrigin))"
    "inContact (mutableNodes (startLocals twoAtOrigin) ! 0)
                (mutableNodes (startLocals twoAtOrigin) ! 1)"
    "\<not> inContact (mutableNodes (startLocals twoAtOrigin) ! 0)
                  (mutableNodes (startLocals twoAtOrigin) ! 0)"
    "n_integrityCooldown (mutableNodes (startLocals twoAtOrigin) ! 1) = 0"
    by (simp_all add: startLocals_def twoAtOrigin_def plainWorld_def plainNode_def
          inContact_def touches_def hypot_def)
  from first_contact_decides [of "startLocals threeAtOrigin" 0 calmEnv] a
  have "nodeCollisionLoop calmEnv 0 (mutableNodes (startLocals threeAtOrigin)) 0
         (startLocals threeAtOrigin) = startLocals threeAtOrigin"
    by auto
  moreover
  from first_contact_decides [of "startLocals twoAtOrigin" 0 calmEnv] b
  have "nodeCollisionLoop calmEnv 0 (mutableNodes (startLocals twoAtOrigin)) 0
         (startLocals twoAtOrigin) = collide calmEnv 0 1 (startLocals twoAtOrigin)"
    by auto
  ultimately show ?thesis using a b by simp
qed

section \<open>C6: reflection at the boundary\<close>

text \<open>
  Claim C6, amended. A node whose distance from the centre exceeds
  \<open>worldRadius - radius\<close> is put back at distance \<open>|worldRadius - radius|\<close> from the
  centre, which is \<open>worldRadius - radius\<close> whenever the world is not smaller than the
  node. A node other than the player has its velocity multiplied by \<open>-0.5\<close>, so its
  speed is halved. For the player the component of the velocity along the direction
  from the centre is multiplied by \<open>-1.2\<close> and the component across it is kept: the
  squared speed grows by \<open>0.44\<close> times the squared normal component, so the speed
  never drops and is strictly greater exactly when the normal component is not zero.
\<close>

theorem boundary_reflection:
  assumes "centreDistance node > W - n_radius node"
  shows "centreDistance (boundaryCheck W node) = \<bar>W - n_radius node\<bar>
    \<and> (n_type node \<noteq> player_consciousness \<longrightarrow>
          n_vx (boundaryCheck W node) = - 0.5 * n_vx node
          \<and> n_vy (boundaryCheck W node) = - 0.5 * n_vy node
          \<and> speedOf (boundaryCheck W node) = 0.5 * speedOf node)
    \<and> (n_type node = player_consciousness \<longrightarrow>
          alongDir (atan2 (n_y node) (n_x node)) (boundaryCheck W node)
            = - 1.2 * alongDir (atan2 (n_y node) (n_x node)) node
          \<and> acrossDir (atan2 (n_y node) (n_x node)) (boundaryCheck W node)
            = acrossDir (atan2 (n_y node) (n_x node)) node
          \<and> (speedOf (boundaryCheck W node))\<^sup>2
            = (speedOf node)\<^sup>2 + 0.44 * (alongDir (atan2 (n_y node) (n_x node)) node)\<^sup>2
          \<and> speedOf node \<le> speedOf (boundaryCheck W node)
          \<and> (speedOf node < speedOf (boundaryCheck W node)
               \<longleftrightarrow> alongDir (atan2 (n_y node) (n_x node)) node \<noteq> 0))"
proof -
  let ?a = "atan2 (n_y node) (n_x node)"
  let ?d = "alongDir ?a node"
  have cs: "(cos ?a)\<^sup>2 + (sin ?a)\<^sup>2 = 1" by simp
  note b = boundaryCheck_beyond [OF assms]
  have dist: "centreDistance (boundaryCheck W node) = \<bar>W - n_radius node\<bar>"
    by (simp add: b Let_def centreDistance_def sqrt_sq_sum [OF cs])
  have other: "n_vx (boundaryCheck W node) = - 0.5 * n_vx node
          \<and> n_vy (boundaryCheck W node) = - 0.5 * n_vy node
          \<and> speedOf (boundaryCheck W node) = 0.5 * speedOf node"
    if "n_type node \<noteq> player_consciousness"
  proof -
    have "(n_vx node * (- 0.5)) * (n_vx node * (- 0.5)) + (n_vy node * (- 0.5)) * (n_vy node * (- 0.5))
          = (0.5)\<^sup>2 * (n_vx node * n_vx node + n_vy node * n_vy node)"
      by (simp add: power2_eq_square algebra_simps)
    then have "sqrt ((n_vx node * (- 0.5)) * (n_vx node * (- 0.5)) + (n_vy node * (- 0.5)) * (n_vy node * (- 0.5)))
          = 0.5 * sqrt (n_vx node * n_vx node + n_vy node * n_vy node)"
      by (simp only: real_sqrt_mult real_sqrt_abs)
    with that show ?thesis
      by (simp add: b Let_def speedOf_def hypot_def)
  qed
  have player: "alongDir ?a (boundaryCheck W node) = - 1.2 * ?d
          \<and> acrossDir ?a (boundaryCheck W node) = acrossDir ?a node
          \<and> (speedOf (boundaryCheck W node))\<^sup>2 = (speedOf node)\<^sup>2 + 0.44 * ?d\<^sup>2
          \<and> speedOf node \<le> speedOf (boundaryCheck W node)
          \<and> (speedOf node < speedOf (boundaryCheck W node) \<longleftrightarrow> ?d \<noteq> 0)"
    if pl: "n_type node = player_consciousness"
  proof -
    have vx: "n_vx (boundaryCheck W node) = n_vx node - 2.2 * ?d * cos ?a"
      and vy: "n_vy (boundaryCheck W node) = n_vy node - 2.2 * ?d * sin ?a"
      using pl by (simp_all add: b Let_def)
    have "alongDir ?a (boundaryCheck W node)
            = (n_vx node - 2.2 * ?d * cos ?a) * cos ?a + (n_vy node - 2.2 * ?d * sin ?a) * sin ?a"
      unfolding alongDir_def [of ?a "boundaryCheck W node"] vx vy by (rule refl)
    also have "\<dots> = (n_vx node * cos ?a + n_vy node * sin ?a)
                        - 2.2 * ?d * ((cos ?a)\<^sup>2 + (sin ?a)\<^sup>2)"
      by (rule reflect_along)
    also have "\<dots> = ?d - 2.2 * ?d"
      unfolding cs by (simp add: alongDir_def)
    finally have along: "alongDir ?a (boundaryCheck W node) = - 1.2 * ?d"
      by simp
    have "acrossDir ?a (boundaryCheck W node)
            = (n_vy node - 2.2 * ?d * sin ?a) * cos ?a - (n_vx node - 2.2 * ?d * cos ?a) * sin ?a"
      unfolding acrossDir_def [of ?a "boundaryCheck W node"] vx vy by (rule refl)
    also have "\<dots> = n_vy node * cos ?a - n_vx node * sin ?a"
      by (rule reflect_across)
    finally have across: "acrossDir ?a (boundaryCheck W node) = acrossDir ?a node"
      by (simp add: acrossDir_def)
    have sq: "(speedOf (boundaryCheck W node))\<^sup>2 = (speedOf node)\<^sup>2 + 0.44 * ?d\<^sup>2"
    proof -
      have "(speedOf (boundaryCheck W node))\<^sup>2
              = n_vx (boundaryCheck W node) * n_vx (boundaryCheck W node)
                + n_vy (boundaryCheck W node) * n_vy (boundaryCheck W node)"
        by (simp add: speedOf_def hypot_def)
      also have "\<dots> = (n_vx node * n_vx node + n_vy node * n_vy node) + 0.44 * ?d\<^sup>2"
        unfolding vx vy alongDir_def by (rule player_speed_sq [OF cs])
      also have "n_vx node * n_vx node + n_vy node * n_vy node = (speedOf node)\<^sup>2"
        by (simp add: speedOf_def hypot_def)
      finally show ?thesis .
    qed
    have nn: "0 \<le> speedOf node" "0 \<le> speedOf (boundaryCheck W node)"
      by (simp_all add: speedOf_def hypot_def)
    have ge: "speedOf node \<le> speedOf (boundaryCheck W node)"
    proof (rule power2_le_imp_le)
      show "(speedOf node)\<^sup>2 \<le> (speedOf (boundaryCheck W node))\<^sup>2"
        unfolding sq by simp
      show "0 \<le> speedOf (boundaryCheck W node)" by (rule nn)
    qed
    have gt: "speedOf node < speedOf (boundaryCheck W node) \<longleftrightarrow> ?d \<noteq> 0"
    proof
      assume "speedOf node < speedOf (boundaryCheck W node)"
      then have "(speedOf node)\<^sup>2 < (speedOf (boundaryCheck W node))\<^sup>2"
        using nn(1) by (rule power_strict_mono) simp
      then have "0 < 0.44 * ?d\<^sup>2" unfolding sq by simp
      then show "?d \<noteq> 0" by auto
    next
      assume "?d \<noteq> 0"
      then have "0 < 0.44 * ?d\<^sup>2" by simp
      then have "(speedOf node)\<^sup>2 < (speedOf (boundaryCheck W node))\<^sup>2"
        unfolding sq by simp
      then show "speedOf node < speedOf (boundaryCheck W node)"
        using nn(2) by (rule power2_less_imp_less)
    qed
    from along across sq ge gt show ?thesis by simp
  qed
  from dist other player show ?thesis by blast
qed

text \<open>
  Claim C6 says that the player's speed after the reflection is its speed before
  times a coefficient strictly greater than 1. A player beyond the boundary whose
  velocity has no component towards the wall keeps its speed of 3: no coefficient
  greater than 1 relates the two speeds. The last conjunct runs the whole tick on a
  world holding that player.
\<close>

theorem skimming_player_keeps_its_speed:
  "60 - n_radius skimmingPlayer < centreDistance skimmingPlayer
   \<and> n_type skimmingPlayer = player_consciousness
   \<and> speedOf skimmingPlayer = 3
   \<and> speedOf (boundaryCheck 60 skimmingPlayer) = 3
   \<and> \<not> (\<exists>restitution>1.
          speedOf (boundaryCheck 60 skimmingPlayer) = speedOf skimmingPlayer * restitution)
   \<and> nodes (tick calmEnv 40 40 (plainWorld IDLE [skimmingPlayer]))
       = [boundaryCheck 60 skimmingPlayer]"
proof -
  have a: "centreDistance skimmingPlayer = 100" "speedOf skimmingPlayer = 3"
    by (simp_all add: centreDistance_def speedOf_def hypot_def skimmingPlayer_def plainNode_def
          sqrt_values)
  have b: "speedOf (boundaryCheck 60 skimmingPlayer) = 3"
    by (simp add: skimmingPlayer_checked)
       (simp add: speedOf_def hypot_def skimmingPlayer_def plainNode_def sqrt_values)
  have t: "n_type skimmingPlayer = player_consciousness" "n_radius skimmingPlayer = 20"
    by (simp_all add: skimmingPlayer_def plainNode_def)
  have idle: "playerState (projection (plainWorld IDLE [skimmingPlayer])) = IDLE"
    "\<not> isPaused (plainWorld IDLE [skimmingPlayer])"
    "nodes (plainWorld IDLE [skimmingPlayer]) = [skimmingPlayer]"
    "zoomLevel (plainWorld IDLE [skimmingPlayer]) = 0"
    by (simp_all add: plainWorld_def)
  have "nodes (tick calmEnv 40 40 (plainWorld IDLE [skimmingPlayer]))
          = mutableNodes (tickBody calmEnv 40 40 (plainWorld IDLE [skimmingPlayer]))"
    using idle(2) by (simp add: tick_def orbCollection_def Let_def split: option.split)
  also have "\<dots> = [boundaryCheck 60 skimmingPlayer]"
    using idle t
    by (simp add: tickBody_def machine_idle startLocals_fields satelliteStage_def
          accrualStage_def nodePhysics_def nodeStep_def moveNode_def worldRadiusOf_def
          isPlayerNode_def resourceAccrual_eq dustPhysics_def satelliteLogic_eq Let_def
          split: option.split)
  finally show ?thesis using a b t by simp
qed

theorem boundary_reflection_witness:
  "60 - n_radius driftingRock < centreDistance driftingRock
   \<and> n_type driftingRock \<noteq> player_consciousness
   \<and> centreDistance (boundaryCheck 60 driftingRock) = 40
   \<and> n_vx (boundaryCheck 60 driftingRock) = - 2
   \<and> speedOf (boundaryCheck 60 driftingRock) = 2
   \<and> 60 - n_radius skimmingPlayer < centreDistance skimmingPlayer
   \<and> centreDistance (boundaryCheck 60 skimmingPlayer) = 40
   \<and> speedOf skimmingPlayer \<le> speedOf (boundaryCheck 60 skimmingPlayer)"
proof -
  have r: "60 - n_radius driftingRock < centreDistance driftingRock"
    "n_type driftingRock \<noteq> player_consciousness"
    "n_radius driftingRock = 20" "n_vx driftingRock = 4" "speedOf driftingRock = 4"
    by (simp_all add: centreDistance_def speedOf_def hypot_def driftingRock_def plainNode_def
          sqrt_values)
  have p: "60 - n_radius skimmingPlayer < centreDistance skimmingPlayer"
    "n_type skimmingPlayer = player_consciousness" "n_radius skimmingPlayer = 20"
    by (simp_all add: centreDistance_def skimmingPlayer_def plainNode_def sqrt_values)
  from boundary_reflection [OF r(1)] r
  have "centreDistance (boundaryCheck 60 driftingRock) = 40
        \<and> n_vx (boundaryCheck 60 driftingRock) = - 2
        \<and> speedOf (boundaryCheck 60 driftingRock) = 2"
    by simp
  moreover from boundary_reflection [OF p(1)] p
  have "centreDistance (boundaryCheck 60 skimmingPlayer) = 40
        \<and> speedOf skimmingPlayer \<le> speedOf (boundaryCheck 60 skimmingPlayer)"
    by simp
  ultimately show ?thesis using r p by simp
qed

section \<open>C10: orb pickup in every projection state\<close>

text \<open>
  Claim C10. On every tick that is processed (the world is not paused) and with a
  player node present, whatever the projection state, the pickup runs after the node
  physics: with the player's node as the tick returns it, the returned orb
  collection is the collection held at that point without the orbs closer to the
  player than \<open>playerRadius + orbRadius + ORB_COLLECTION_LEEWAY\<close>, and the value of
  each removed orb is added to the energy total. The collection held at that point
  contains every orb of the incoming state, so no incoming orb within reach is left.
\<close>

theorem orb_pickup_in_every_state:
  assumes "\<not> isPaused s" and "findIndex isPlayerNode (nodes s) = Some p0"
  shows "\<exists>pidx. playerNode (tickBody e w h s) = Some pidx
      \<and> pidx < length (nodes (tick e w h s))
      \<and> isPlayerNode (nodes (tick e w h s) ! pidx)
      \<and> energyOrbs (tick e w h s)
          = filter (\<lambda>orb. \<not> orbInReach (nodes (tick e w h s) ! pidx) orb)
              (energyOrbs (nextState (tickBody e w h s)))
      \<and> energy (tick e w h s)
          = energy (nextState (tickBody e w h s))
            + sum_list (map o_value
                (filter (orbInReach (nodes (tick e w h s) ! pidx))
                   (energyOrbs (nextState (tickBody e w h s)))))
      \<and> set (energyOrbs s) \<subseteq> set (energyOrbs (nextState (tickBody e w h s)))
      \<and> (\<forall>orb\<in>set (energyOrbs s).
            orbInReach (nodes (tick e w h s) ! pidx) orb \<longrightarrow> orb \<notin> set (energyOrbs (tick e w h s)))"
proof -
  obtain q where q: "playerNode (tickBody e w h s) = Some q"
      "q < length (mutableNodes (tickBody e w h s))"
      "atRest (mutableNodes (tickBody e w h s) ! q) = atRest (nodes s ! p0)"
    using tickBody_slot [OF assms(2)] by blast
  have player: "isPlayerNode (nodes s ! p0)"
    using assms(2) by (simp add: findIndex_Some_iff)
  have ns: "nodes (tick e w h s) = mutableNodes (tickBody e w h s)"
    using assms(1) q(1) by (simp add: tick_def Let_def orbCollection_eq)
  have "n_type (mutableNodes (tickBody e w h s) ! q) = n_type (nodes s ! p0)"
    using q(3) atRest_fields(2) by metis
  with player have pl: "isPlayerNode (mutableNodes (tickBody e w h s) ! q)"
    by (simp add: isPlayerNode_def)
  have orbs: "energyOrbs (tick e w h s)
          = filter (\<lambda>orb. \<not> orbInReach (mutableNodes (tickBody e w h s) ! q) orb)
              (energyOrbs (nextState (tickBody e w h s)))"
    using assms(1) q(1) by (simp add: tick_def Let_def orbCollection_eq)
  have en: "energy (tick e w h s)
          = energy (nextState (tickBody e w h s))
            + sum_list (map o_value
                (filter (orbInReach (mutableNodes (tickBody e w h s) ! q))
                   (energyOrbs (nextState (tickBody e w h s)))))"
    using assms(1) q(1) by (simp add: tick_def Let_def orbCollection_eq)
  have sub: "set (energyOrbs s) \<subseteq> set (energyOrbs (nextState (tickBody e w h s)))"
    by (rule tickBody_orbs)
  have gone: "\<forall>orb\<in>set (energyOrbs s).
            orbInReach (mutableNodes (tickBody e w h s) ! q) orb
              \<longrightarrow> orb \<notin> set (energyOrbs (tick e w h s))"
    unfolding orbs by simp
  from q(1,2) pl orbs en sub gone show ?thesis
    unfolding ns by blast
qed

theorem orb_pickup_in_every_state_witness:
  "\<not> isPaused (orbWorld REFORMING)
   \<and> findIndex isPlayerNode (nodes (orbWorld REFORMING)) = Some 0
   \<and> playerState (projection (orbWorld REFORMING)) = REFORMING
   \<and> energyOrbs (orbWorld REFORMING) = [nearOrb, farOrb]
   \<and> energy (orbWorld REFORMING) = 50
   \<and> energyOrbs (tick calmEnv 1000 1000 (orbWorld REFORMING)) = [farOrb]
   \<and> energy (tick calmEnv 1000 1000 (orbWorld REFORMING)) = 60"
proof -
  let ?s = "orbWorld REFORMING"
  let ?me = "plainNode ''me'' player_consciousness 0 0 2 0"
  have a: "\<not> isPaused ?s" "findIndex isPlayerNode (nodes ?s) = Some 0"
    "playerState (projection ?s) = REFORMING" "energyOrbs ?s = [nearOrb, farOrb]"
    "energy ?s = 50" "nodes ?s = [?me]" "zoomLevel ?s = 0" "satellites ?s = []"
    by (simp_all add: orbWorld_def plainWorld_def plainNode_def isPlayerNode_def)
  have m: "afterMachine calmEnv 1000 1000 ?s
             = (startLocals ?s)\<lparr>nextState := ?s\<lparr>projection :=
                  (projection ?s)\<lparr>reformTimer := - 1, playerState := IDLE\<rparr>\<rparr>\<rparr>"
    using a(2)
    by (simp add: afterMachine_def projectionStateMachine_def startLocals_fields tickReforming_def
          Let_def orbWorld_def plainWorld_def)
  have me: "n_type ?me = player_consciousness" "n_x ?me = 0" "n_y ?me = 0" "n_radius ?me = 20"
    by (simp_all add: plainNode_def)
  have body: "mutableNodes (tickBody calmEnv 1000 1000 ?s) = [?me]
      \<and> energyOrbs (nextState (tickBody calmEnv 1000 1000 ?s)) = [nearOrb, farOrb]
      \<and> energy (nextState (tickBody calmEnv 1000 1000 ?s)) = 50
      \<and> playerNode (tickBody calmEnv 1000 1000 ?s) = Some 0"
    using a me m [unfolded afterMachine_def]
    by (simp add: tickBody_def startLocals_fields satelliteStage_def accrualStage_def
          nodePhysics_def nodeStep_def moveNode_def boundaryCheck_def starOrb_def
          worldRadiusOf_def resourceAccrual_eq dustPhysics_def satelliteLogic_eq Let_def)
  have reach: "orbInReach ?me nearOrb" "\<not> orbInReach ?me farOrb"
    by (simp_all add: orbInReach_def nearOrb_def farOrb_def plainNode_def sqrt_more_values
          ORB_COLLECTION_LEEWAY_def Let_def)
  from orb_pickup_in_every_state [OF a(1) a(2), of calmEnv 1000 1000]
  obtain pidx where p: "playerNode (tickBody calmEnv 1000 1000 ?s) = Some pidx"
    and n: "pidx < length (nodes (tick calmEnv 1000 1000 ?s))"
    and o: "energyOrbs (tick calmEnv 1000 1000 ?s)
          = filter (\<lambda>orb. \<not> orbInReach (nodes (tick calmEnv 1000 1000 ?s) ! pidx) orb)
              (energyOrbs (nextState (tickBody calmEnv 1000 1000 ?s)))"
    and en: "energy (tick calmEnv 1000 1000 ?s)
          = energy (nextState (tickBody calmEnv 1000 1000 ?s))
            + sum_list (map o_value
                (filter (orbInReach (nodes (tick calmEnv 1000 1000 ?s) ! pidx))
                   (energyOrbs (nextState (tickBody calmEnv 1000 1000 ?s)))))"
    by blast
  have p0: "pidx = 0" using p body by simp
  have nd: "nodes (tick calmEnv 1000 1000 ?s) = [?me]"
    using a(1) body by (simp add: tick_def Let_def orbCollection_eq)
  have "energyOrbs (tick calmEnv 1000 1000 ?s) = [farOrb]"
    unfolding o p0 nd using body reach by simp
  moreover have "energy (tick calmEnv 1000 1000 ?s) = 60"
    unfolding en p0 nd using body reach by (simp add: nearOrb_def)
  ultimately show ?thesis using a by simp
qed

section \<open>C8: assimilation of a planet\<close>

text \<open>
  Claim C8. When the collision of a tick destroys a planet-like node (rocky planet,
  life seed or sentient colony whose integrity after the hit is at most 0), the
  returned node registry holds no node with that id, and the satellite collection is
  the old one followed by exactly one new satellite that carries the node's id, type,
  label and visual reference, with orbit radius 60 plus 20 times the number of
  satellites there were before. If no id was both a node's and a satellite's before
  the tick, none is after it.
\<close>

theorem planet_becomes_satellite:
  assumes "hitIndex s = Some k" and "assimilated (nodes s ! k)"
  shows "n_id (nodes s ! k) \<notin> n_id ` set (nodes (tick e w h s))
     \<and> length (satellites (tick e w h s)) = length (satellites s) + 1
     \<and> butlast (satellites (tick e w h s)) = map advanceSatellite (satellites s)
     \<and> s_id (last (satellites (tick e w h s))) = n_id (nodes s ! k)
     \<and> s_type (last (satellites (tick e w h s))) = n_type (nodes s ! k)
     \<and> s_label (last (satellites (tick e w h s))) = n_label (nodes s ! k)
     \<and> s_imageUrl (last (satellites (tick e w h s))) = n_imageUrl (nodes s ! k)
     \<and> s_orbitRadius (last (satellites (tick e w h s))) = 60 + 20 * real (length (satellites s))
     \<and> (n_id ` set (nodes s) \<inter> s_id ` set (satellites s) = {}
          \<longrightarrow> n_id ` set (nodes (tick e w h s)) \<inter> s_id ` set (satellites (tick e w h s)) = {})"
proof -
  let ?n = "nodes s ! k"
  let ?new = "advanceSatellite (newSatellite e (struck ?n) (satellites s))"
  have sats: "satellites (tick e w h s) = map advanceSatellite (satellites s) @ [?new]"
    using tick_satellites_hit [OF assms(1), of e w h] assms(2) by simp
  have new: "s_id ?new = n_id ?n" "s_type ?new = n_type ?n" "s_label ?new = n_label ?n"
    "s_imageUrl ?new = n_imageUrl ?n"
    "s_orbitRadius ?new = 60 + 20 * real (length (satellites s))"
    by (simp_all add: advanceSatellite_def newSatellite_def struck_fields)
  have "map atRest (nodes (tick e w h s))
          = filter (\<lambda>n. n_id n \<noteq> n_id ?n) (map atRest (nodes s))"
    using tick_atRest [of e w h s] assms by simp
  then have ids: "n_id ` set (nodes (tick e w h s))
                    = n_id ` set (filter (\<lambda>n. n_id n \<noteq> n_id ?n) (map atRest (nodes s)))"
    using ids_atRest [of "nodes (tick e w h s)"] by simp
  then have gone: "n_id ?n \<notin> n_id ` set (nodes (tick e w h s))"
    by auto
  have sub: "n_id ` set (nodes (tick e w h s)) \<subseteq> n_id ` set (nodes s)"
    unfolding ids by (auto simp add: atRest_fields)
  have sid: "s_id ` set (satellites (tick e w h s)) = insert (n_id ?n) (s_id ` set (satellites s))"
    unfolding sats
    by (auto simp add: advanceSatellite_def newSatellite_def struck_fields image_iff)
  have disj: "n_id ` set (nodes (tick e w h s)) \<inter> s_id ` set (satellites (tick e w h s)) = {}"
    if "n_id ` set (nodes s) \<inter> s_id ` set (satellites s) = {}"
    unfolding sid using sub gone that by (rule disjoint_after)
  from gone disj show ?thesis
    unfolding sats by (simp add: new)
qed

theorem planet_becomes_satellite_witness:
  "hitIndex captureWorld = Some 1
   \<and> assimilated (nodes captureWorld ! 1)
   \<and> n_id (nodes captureWorld ! 1) = ''rock''
   \<and> ''rock'' \<notin> n_id ` set (nodes (tick calmEnv 1000 1000 captureWorld))
   \<and> length (satellites (tick calmEnv 1000 1000 captureWorld)) = 1
   \<and> s_id (last (satellites (tick calmEnv 1000 1000 captureWorld))) = ''rock''
   \<and> s_type (last (satellites (tick calmEnv 1000 1000 captureWorld))) = rocky_planet
   \<and> s_orbitRadius (last (satellites (tick calmEnv 1000 1000 captureWorld))) = 60"
proof -
  note t = planet_becomes_satellite [OF hitIndex_captureWorld(1) hitIndex_captureWorld(2),
              of calmEnv 1000 1000]
  have f: "n_id (nodes captureWorld ! 1) = ''rock''"
    "n_type (nodes captureWorld ! 1) = rocky_planet"
    by (simp_all add: captureWorld_def plainWorld_def plainNode_def)
  from t f hitIndex_captureWorld(1,2,4) show ?thesis by simp
qed

section \<open>C3: no node is left at integrity 0\<close>

text \<open>
  Claim C3. If all player nodes share one id and every node other than an asteroid
  has positive integrity within its limit, then after a tick the same holds of the
  returned registry; in particular no node other than an asteroid has integrity 0.
  A star whose integrity the hit of the tick brings to 0 or below is in the returned
  registry at its old index with integrity \<open>maxIntegrity\<close> and cooldown 600. A
  planet-like node whose integrity the hit brings to 0 or below is no longer in the
  returned registry, and a satellite with its id, type and visual reference is in
  the returned satellite collection.
\<close>

theorem no_node_left_at_zero:
  assumes "onePlayer (nodes s)" and "\<forall>n\<in>set (nodes s). vital n"
  shows "(\<forall>n\<in>set (nodes (tick e w h s)). vital n)
     \<and> (\<forall>n\<in>set (nodes (tick e w h s)). n_type n \<noteq> asteroid \<longrightarrow> n_currentIntegrity n \<noteq> 0)
     \<and> (\<forall>k. hitIndex s = Some k \<and> n_type (nodes s ! k) = star
              \<and> n_currentIntegrity (nodes s ! k) - 1 \<le> 0
           \<longrightarrow> k < length (nodes (tick e w h s))
               \<and> n_id (nodes (tick e w h s) ! k) = n_id (nodes s ! k)
               \<and> n_type (nodes (tick e w h s) ! k) = star
               \<and> n_currentIntegrity (nodes (tick e w h s) ! k) = n_maxIntegrity (nodes s ! k)
               \<and> n_integrityCooldown (nodes (tick e w h s) ! k) = 600)
     \<and> (\<forall>k. hitIndex s = Some k \<and> assimilated (nodes s ! k)
           \<longrightarrow> n_id (nodes s ! k) \<notin> n_id ` set (nodes (tick e w h s))
               \<and> (\<exists>sat\<in>set (satellites (tick e w h s)).
                     s_id sat = n_id (nodes s ! k) \<and> s_type sat = n_type (nodes s ! k)
                     \<and> s_imageUrl sat = n_imageUrl (nodes s ! k)))"
proof -
  have v: "vital n" if "n \<in> set (nodes (tick e w h s))" for n
  proof -
    from tick_node_origin [OF that] consider
      (old) m where "m \<in> set (nodes s)" "atRest n = atRest m"
      | (hit) k where "hitIndex s = Some k" "\<not> assimilated (nodes s ! k)"
          "atRest n = atRest (afterHit (nodes s ! k))"
      by blast
    then show ?thesis
    proof cases
      case old
      with assms(2) vital_atRest [OF old(2)] show ?thesis by simp
    next
      case hit
      have "k < length (nodes s)" using hitIndex_SomeD [OF hit(1)] by simp
      then have "vital (nodes s ! k)" using assms(2) by simp
      then have "vital (afterHit (nodes s ! k))"
        using hit(2) hit_not_player [OF assms(1) hit(1)] by (rule vital_afterHit)
      with vital_atRest [OF hit(3)] show ?thesis by simp
    qed
  qed
  have nz: "n_currentIntegrity n \<noteq> 0"
    if "n \<in> set (nodes (tick e w h s))" "n_type n \<noteq> asteroid" for n
    using v [OF that(1)] that(2) by (simp add: vital_def)
  have starred: "k < length (nodes (tick e w h s))
               \<and> n_id (nodes (tick e w h s) ! k) = n_id (nodes s ! k)
               \<and> n_type (nodes (tick e w h s) ! k) = star
               \<and> n_currentIntegrity (nodes (tick e w h s) ! k) = n_maxIntegrity (nodes s ! k)
               \<and> n_integrityCooldown (nodes (tick e w h s) ! k) = 600"
    if h: "hitIndex s = Some k" "n_type (nodes s ! k) = star"
      "n_currentIntegrity (nodes s ! k) - 1 \<le> 0" for k
  proof -
    have kl: "k < length (nodes s)" using hitIndex_SomeD [OF h(1)] by simp
    have na: "\<not> assimilated (nodes s ! k)"
      using h(2) by (simp add: assimilated_def planetLike_def)
    let ?ys = "(map atRest (nodes s))[k := atRest (afterHit (nodes s ! k))]"
    have eq: "map atRest (nodes (tick e w h s)) = ?ys"
      using tick_atRest [of e w h s] h(1) na by simp
    have "k < length ?ys" using kl by simp
    from nth_of_map_eq [OF eq this] kl
    have l: "k < length (nodes (tick e w h s))"
      and a: "atRest (nodes (tick e w h s) ! k) = atRest (afterHit (nodes s ! k))"
      by simp_all
    have "n_id (atRest (afterHit (nodes s ! k))) = n_id (nodes s ! k)"
      "n_type (atRest (afterHit (nodes s ! k))) = star"
      "n_currentIntegrity (atRest (afterHit (nodes s ! k))) = n_maxIntegrity (nodes s ! k)"
      "n_integrityCooldown (atRest (afterHit (nodes s ! k))) = 600"
      using h(2,3) by (simp_all add: atRest_fields afterHit_def struck_fields Let_def)
    then show ?thesis
      using l atRest_fields(1,2,7,8) [of "nodes (tick e w h s) ! k"] unfolding a by simp
  qed
  have captured: "n_id (nodes s ! k) \<notin> n_id ` set (nodes (tick e w h s))
               \<and> (\<exists>sat\<in>set (satellites (tick e w h s)).
                     s_id sat = n_id (nodes s ! k) \<and> s_type sat = n_type (nodes s ! k)
                     \<and> s_imageUrl sat = n_imageUrl (nodes s ! k))"
    if h: "hitIndex s = Some k" "assimilated (nodes s ! k)" for k
  proof -
    let ?new = "advanceSatellite (newSatellite e (struck (nodes s ! k)) (satellites s))"
    have "map atRest (nodes (tick e w h s))
            = filter (\<lambda>n. n_id n \<noteq> n_id (nodes s ! k)) (map atRest (nodes s))"
      using tick_atRest [of e w h s] h by simp
    then have "n_id ` set (nodes (tick e w h s))
                 = n_id ` set (filter (\<lambda>n. n_id n \<noteq> n_id (nodes s ! k)) (map atRest (nodes s)))"
      using ids_atRest [of "nodes (tick e w h s)"] by simp
    then have gone: "n_id (nodes s ! k) \<notin> n_id ` set (nodes (tick e w h s))" by auto
    have "?new \<in> set (satellites (tick e w h s))"
      using tick_satellites_hit [OF h(1), of e w h] h(2) by simp
    moreover have "s_id ?new = n_id (nodes s ! k)" "s_type ?new = n_type (nodes s ! k)"
      "s_imageUrl ?new = n_imageUrl (nodes s ! k)"
      by (simp_all add: advanceSatellite_def newSatellite_def struck_fields)
    ultimately show ?thesis using gone by blast
  qed
  from v nz starred captured show ?thesis by blast
qed

theorem no_node_left_at_zero_witness:
  "onePlayer (nodes novaWorld)
   \<and> list_all vital (nodes novaWorld)
   \<and> hitIndex novaWorld = Some 1
   \<and> n_type (nodes novaWorld ! 1) = star
   \<and> n_currentIntegrity (nodes novaWorld ! 1) = 1
   \<and> list_all vital (nodes (tick calmEnv 1000 1000 novaWorld))
   \<and> n_currentIntegrity (nodes (tick calmEnv 1000 1000 novaWorld) ! 1) = 2
   \<and> n_integrityCooldown (nodes (tick calmEnv 1000 1000 novaWorld) ! 1) = 600"
proof -
  have a: "onePlayer (nodes novaWorld)"
    by (simp add: onePlayer_def novaWorld_def plainWorld_def plainNode_def isPlayerNode_def)
  have b: "\<forall>n\<in>set (nodes novaWorld). vital n"
    by (simp add: vital_def novaWorld_def plainWorld_def plainNode_def)
  have c: "n_currentIntegrity (nodes novaWorld ! 1) = 1"
    by (simp add: novaWorld_def plainWorld_def plainNode_def)
  note t = no_node_left_at_zero [OF a b, of calmEnv 1000 1000]
  from t have "\<forall>n\<in>set (nodes (tick calmEnv 1000 1000 novaWorld)). vital n" by blast
  moreover from t hitIndex_novaWorld
  have "n_currentIntegrity (nodes (tick calmEnv 1000 1000 novaWorld) ! 1) = 2
        \<and> n_integrityCooldown (nodes (tick calmEnv 1000 1000 novaWorld) ! 1) = 600"
    by simp
  ultimately show ?thesis
    using a b c hitIndex_novaWorld(1,3) by (simp add: list_all_iff)
qed

section \<open>C4: illegal projection actions and the edges of the state machine\<close>

text \<open>
  Claim C4 says that the projection state only ever changes along the five legal
  edges. \<open>START_GAME\<close> spreads the module's initial state around the current nodes,
  so it takes a world in \<open>AIMING_POWER\<close> to \<open>IDLE\<close>, which is none of the five
  edges; \<open>LOAD_GAME\<close> spreads the loaded world, so it takes the initial world from
  \<open>IDLE\<close> to the \<open>AIMING_POWER\<close> of a world saved while aiming.
\<close>

theorem start_game_leaves_the_edges:
  "playerState (projection aimingWorld) = AIMING_POWER
   \<and> playerState (projection
         (gameReducer (initialState (\<lambda>_. [])) calmEnv (START_GAME ''img'') aimingWorld)) = IDLE
   \<and> \<not> legalEdge (playerState (projection aimingWorld))
         (playerState (projection
            (gameReducer (initialState (\<lambda>_. [])) calmEnv (START_GAME ''img'') aimingWorld)))
   \<and> playerState (projection (initialState (\<lambda>_. []))) = IDLE
   \<and> playerState (projection
         (gameReducer (initialState (\<lambda>_. [])) calmEnv (LOAD_GAME (Some aimingWorld))
            (initialState (\<lambda>_. []))))
       = AIMING_POWER
   \<and> \<not> legalEdge (playerState (projection (initialState (\<lambda>_. []))))
         (playerState (projection
            (gameReducer (initialState (\<lambda>_. [])) calmEnv (LOAD_GAME (Some aimingWorld))
               (initialState (\<lambda>_. [])))))"
  by (simp add: gameReducer_def startGame_def loadGame_def aimingWorld_def initialState_def
        createInitialNodes_def isPlayerNode_def initialProjectionState_def legalEdge_def)

text \<open>
  Claim C4, amended. For every world state, a projection action sent in the wrong
  state (\<open>START_AIMING\<close> when not \<open>IDLE\<close>, \<open>SET_DIRECTION\<close> when not
  \<open>AIMING_DIRECTION\<close>, \<open>LAUNCH_PLAYER\<close> when not \<open>AIMING_POWER\<close>) returns the world
  unchanged. Under every action of the reducer other than \<open>START_GAME\<close>,
  \<open>LOAD_GAME\<close> and \<open>PURCHASE_UPGRADE\<close>, the projection state stays or moves along
  one of the five edges \<open>IDLE\<close>, \<open>AIMING_DIRECTION\<close>, \<open>AIMING_POWER\<close>,
  \<open>PROJECTING\<close>, \<open>REFORMING\<close>, \<open>IDLE\<close>. \<open>START_GAME\<close> returns the world unchanged
  when it has no player node, and otherwise a world with the projection of the
  module's initial state; \<open>LOAD_GAME\<close> returns the world unchanged when loading
  fails, and otherwise a world with the projection of the loaded one;
  \<open>PURCHASE_UPGRADE\<close> returns what the upgrade's effect function returns on the
  world after the cost is paid, and paying the cost leaves the projection unchanged.
\<close>

theorem wrong_state_is_noop_and_edges_are_legal:
  "(playerState (projection s) \<noteq> IDLE \<longrightarrow> gameReducer shared e START_AIMING s = s)
   \<and> (playerState (projection s) \<noteq> AIMING_DIRECTION \<longrightarrow> gameReducer shared e SET_DIRECTION s = s)
   \<and> (playerState (projection s) \<noteq> AIMING_POWER \<longrightarrow> gameReducer shared e LAUNCH_PLAYER s = s)
   \<and> (\<not> replacesWorld a \<longrightarrow>
         legalEdge (playerState (projection s))
           (playerState (projection (gameReducer shared e a s))))
   \<and> (find isPlayerNode (nodes s) = None \<longrightarrow> gameReducer shared e (START_GAME url) s = s)
   \<and> (find isPlayerNode (nodes s) \<noteq> None \<longrightarrow>
         projection (gameReducer shared e (START_GAME url) s) = projection shared)
   \<and> gameReducer shared e (LOAD_GAME None) s = s
   \<and> projection (gameReducer shared e (LOAD_GAME (Some saved)) s) = projection saved
   \<and> gameReducer shared e (PURCHASE_UPGRADE upgrade imageUrl) s
       = u_effect upgrade (fold payCost (u_cost upgrade) s) imageUrl
   \<and> projection (fold payCost (u_cost upgrade) s) = projection s"
proof -
  have edge: "legalEdge (playerState (projection s))
                (playerState (projection (gameReducer shared e a s)))"
    if "\<not> replacesWorld a"
  proof (cases a)
    case (TICK w h)
    then show ?thesis using tick_playerState [of s e w h] by (simp add: gameReducer_def)
  next
    case LAUNCH_PLAYER
    then show ?thesis
      by (simp add: gameReducer_def launchPlayer_def legalEdge_def Let_def split: option.split)
  next
    case (START_GAME x)
    with that show ?thesis by (simp add: replacesWorld_def)
  next
    case (LOAD_GAME x)
    with that show ?thesis by (simp add: replacesWorld_def)
  next
    case (PURCHASE_UPGRADE x y)
    with that show ?thesis by (simp add: replacesWorld_def)
  qed (simp_all add: gameReducer_def legalEdge_def completeLevelTransition_def selectNode_def
         startAiming_def setDirection_def Let_def)
  have pay: "projection (fold payCost cs t) = projection t" for cs t
  proof (induction cs arbitrary: t)
    case Nil
    show ?case by simp
  next
    case (Cons c cs)
    have "projection (payCost c t) = projection t"
      by (cases "fst c") (simp_all add: payCost_def)
    with Cons show ?case by simp
  qed
  have start: "find isPlayerNode (nodes s) \<noteq> None \<longrightarrow>
         projection (gameReducer shared e (START_GAME url) s) = projection shared"
    by (auto simp add: gameReducer_def startGame_def)
  show ?thesis
    using edge pay [of "u_cost upgrade" s] start
    by (simp add: gameReducer_def startAiming_def setDirection_def launchPlayer_def
          startGame_def loadGame_def purchaseUpgrade_def)
qed

theorem wrong_state_is_noop_and_edges_are_legal_witness:
  "playerState (projection aimingWorld) \<noteq> IDLE
   \<and> gameReducer (initialState (\<lambda>_. [])) calmEnv START_AIMING aimingWorld = aimingWorld
   \<and> playerState (projection aimingWorld) \<noteq> AIMING_DIRECTION
   \<and> gameReducer (initialState (\<lambda>_. [])) calmEnv SET_DIRECTION aimingWorld = aimingWorld
   \<and> playerState (projection (plainWorld IDLE [])) \<noteq> AIMING_POWER
   \<and> gameReducer (initialState (\<lambda>_. [])) calmEnv LAUNCH_PLAYER (plainWorld IDLE [])
       = plainWorld IDLE []
   \<and> \<not> replacesWorld LAUNCH_PLAYER
   \<and> playerState (projection
        (gameReducer (initialState (\<lambda>_. [])) calmEnv LAUNCH_PLAYER aimingWorld)) = PROJECTING
   \<and> legalEdge (playerState (projection aimingWorld))
        (playerState (projection
           (gameReducer (initialState (\<lambda>_. [])) calmEnv LAUNCH_PLAYER aimingWorld)))
   \<and> find isPlayerNode (nodes (plainWorld IDLE [])) = None
   \<and> gameReducer (initialState (\<lambda>_. [])) calmEnv (START_GAME ''img'') (plainWorld IDLE [])
       = plainWorld IDLE []
   \<and> find isPlayerNode (nodes aimingWorld) \<noteq> None
   \<and> projection (gameReducer (initialState (\<lambda>_. [])) calmEnv (START_GAME ''img'') aimingWorld)
       = initialProjectionState"
proof -
  have a: "playerState (projection aimingWorld) = AIMING_POWER"
    by (simp add: aimingWorld_def initialProjectionState_def)
  have b: "\<not> replacesWorld LAUNCH_PLAYER" by (simp add: replacesWorld_def)
  have c: "playerState (projection
             (gameReducer (initialState (\<lambda>_. [])) calmEnv LAUNCH_PLAYER aimingWorld))
             = PROJECTING"
    by (simp add: gameReducer_def launchPlayer_def aimingWorld_def initialState_def
          createInitialNodes_def isPlayerNode_def initialProjectionState_def Let_def)
  have d: "playerState (projection (plainWorld IDLE [])) = IDLE"
    "find isPlayerNode (nodes (plainWorld IDLE [])) = None"
    by (simp_all add: plainWorld_def)
  have f: "find isPlayerNode (nodes aimingWorld) \<noteq> None"
    by (simp add: aimingWorld_def initialState_def createInitialNodes_def isPlayerNode_def)
  have g: "projection (initialState (\<lambda>_. [])) = initialProjectionState"
    by (simp add: initialState_def)
  from wrong_state_is_noop_and_edges_are_legal
         [of aimingWorld "initialState (\<lambda>_. [])" calmEnv LAUNCH_PLAYER "''img''"]
       wrong_state_is_noop_and_edges_are_legal
         [of "plainWorld IDLE []" "initialState (\<lambda>_. [])" calmEnv LAUNCH_PLAYER "''img''"]
       a b c d f g
  show ?thesis by simp
qed

section \<open>C5: integrity and power stay within their bounds\<close>

text \<open>
  Claim C5. The bounds \<open>0 \<le> currentIntegrity \<le> maxIntegrity\<close> on every node and
  \<open>0 \<le> power \<le> 100\<close> on the projection are kept by the reducer. Whenever a world
  has them, with its player nodes on one id, the world after a tick has them, whatever
  the clock, the draws and the viewport. The power a tick in \<open>AIMING_POWER\<close> writes,
  \<open>(sin t + 1) * 50\<close>, lies in \<open>[0, 100]\<close>. The initial world has the bounds and one
  player id, and every action of the reducer keeps them when what it brings in from
  outside (the module's initial state, a saved world, the result of an upgrade's
  effect function) has them.
\<close>

theorem integrity_and_power_bounded:
  assumes "onePlayer (nodes s)"
    and "\<forall>n\<in>set (nodes s). 0 \<le> n_currentIntegrity n \<and> n_currentIntegrity n \<le> n_maxIntegrity n"
    and "0 \<le> power_level (projection s)" and "power_level (projection s) \<le> 100"
  shows "onePlayer (nodes (tick e w h s))
     \<and> (\<forall>n\<in>set (nodes (tick e w h s)).
            0 \<le> n_currentIntegrity n \<and> n_currentIntegrity n \<le> n_maxIntegrity n)
     \<and> 0 \<le> power_level (projection (tick e w h s))
     \<and> power_level (projection (tick e w h s)) \<le> 100
     \<and> 0 \<le> power_level (projection (nextState (tickAimingPower e c)))
     \<and> power_level (projection (nextState (tickAimingPower e c))) \<le> 100
     \<and> wellFormed (initialState imageMap)
     \<and> (payloadInBounds shared a s \<longrightarrow> wellFormed (gameReducer shared e a s))"
proof -
  have wf: "wellFormed s"
    using assms by (simp add: wellFormed_def list_all_iff sound_def)
  have "wellFormed (tick e w h s)" using wf by (rule tick_wellFormed)
  then have t: "onePlayer (nodes (tick e w h s))
     \<and> (\<forall>n\<in>set (nodes (tick e w h s)).
            0 \<le> n_currentIntegrity n \<and> n_currentIntegrity n \<le> n_maxIntegrity n)
     \<and> 0 \<le> power_level (projection (tick e w h s))
     \<and> power_level (projection (tick e w h s)) \<le> 100"
    by (simp add: wellFormed_def list_all_iff sound_def)
  have "0 \<le> (sin (now e / (1000 / POWER_OSCILLATION_SPEED)) + 1) * 50
      \<and> (sin (now e / (1000 / POWER_OSCILLATION_SPEED)) + 1) * 50 \<le> 100"
    by (rule oscillation_bounds) (rule sin_ge_minus_one, rule sin_le_one)
  then have p: "0 \<le> power_level (projection (nextState (tickAimingPower e c)))
     \<and> power_level (projection (nextState (tickAimingPower e c))) \<le> 100"
    by (simp add: tickAimingPower_def Let_def)
  have r: "payloadInBounds shared a s \<longrightarrow> wellFormed (gameReducer shared e a s)"
    using gameReducer_wellFormed [OF wf] by blast
  from t p r wellFormed_initialState [of imageMap] show ?thesis by blast
qed

theorem integrity_and_power_bounded_witness:
  "onePlayer (nodes novaWorld)
   \<and> list_all (\<lambda>n. 0 \<le> n_currentIntegrity n \<and> n_currentIntegrity n \<le> n_maxIntegrity n)
        (nodes novaWorld)
   \<and> 0 \<le> power_level (projection novaWorld) \<and> power_level (projection novaWorld) \<le> 100
   \<and> n_type (nodes novaWorld ! 1) = star
   \<and> n_currentIntegrity (nodes novaWorld ! 1) = 1
   \<and> hitIndex novaWorld = Some 1
   \<and> n_currentIntegrity (nodes (tick calmEnv 1000 1000 novaWorld) ! 1) = 2
   \<and> n_maxIntegrity (nodes (tick calmEnv 1000 1000 novaWorld) ! 1) = 2
   \<and> list_all (\<lambda>n. 0 \<le> n_currentIntegrity n \<and> n_currentIntegrity n \<le> n_maxIntegrity n)
        (nodes (tick calmEnv 1000 1000 novaWorld))
   \<and> onePlayer (nodes powerWorld)
   \<and> list_all (\<lambda>n. 0 \<le> n_currentIntegrity n \<and> n_currentIntegrity n \<le> n_maxIntegrity n)
        (nodes powerWorld)
   \<and> playerState (projection powerWorld) = AIMING_POWER
   \<and> power_level (projection powerWorld) = 0
   \<and> power_level (projection (tick calmEnv 1000 1000 powerWorld)) = 50
   \<and> 0 \<le> power_level (projection (tick calmEnv 1000 1000 powerWorld))
   \<and> power_level (projection (tick calmEnv 1000 1000 powerWorld)) \<le> 100
   \<and> payloadInBounds (initialState (\<lambda>_. [])) (TICK 1000 1000) novaWorld
   \<and> wellFormed (gameReducer (initialState (\<lambda>_. [])) calmEnv (TICK 1000 1000) novaWorld)
   \<and> payloadInBounds (initialState (\<lambda>_. [])) (LOAD_GAME (Some powerWorld)) novaWorld
   \<and> wellFormed
        (gameReducer (initialState (\<lambda>_. [])) calmEnv (LOAD_GAME (Some powerWorld)) novaWorld)"
proof -
  have a: "onePlayer (nodes novaWorld)"
    by (simp add: onePlayer_def novaWorld_def plainWorld_def plainNode_def isPlayerNode_def)
  have b: "\<forall>n\<in>set (nodes novaWorld).
             0 \<le> n_currentIntegrity n \<and> n_currentIntegrity n \<le> n_maxIntegrity n"
    by (simp add: novaWorld_def plainWorld_def plainNode_def)
  have c: "0 \<le> power_level (projection novaWorld)" "power_level (projection novaWorld) \<le> 100"
    "n_currentIntegrity (nodes novaWorld ! 1) = 1"
    by (simp_all add: novaWorld_def plainWorld_def plainNode_def)
  have a': "onePlayer (nodes powerWorld)"
    by (simp add: onePlayer_def powerWorld_def plainWorld_def plainNode_def isPlayerNode_def)
  have b': "\<forall>n\<in>set (nodes powerWorld).
             0 \<le> n_currentIntegrity n \<and> n_currentIntegrity n \<le> n_maxIntegrity n"
    by (simp add: powerWorld_def plainWorld_def plainNode_def)
  have c': "0 \<le> power_level (projection powerWorld)" "power_level (projection powerWorld) \<le> 100"
    "playerState (projection powerWorld) = AIMING_POWER"
    by (simp_all add: powerWorld_def plainWorld_def)
  have d: "payloadInBounds (initialState (\<lambda>_. [])) (TICK 1000 1000) novaWorld"
    by (simp add: payloadInBounds_def)
  note n = integrity_and_power_bounded
             [OF a b c(1,2), where e = calmEnv and w = 1000 and h = 1000
                and shared = "initialState (\<lambda>_. [])" and a = "TICK 1000 1000"]
  note p = integrity_and_power_bounded
             [OF a' b' c'(1,2), where e = calmEnv and w = 1000 and h = 1000]
  from n have n1: "\<forall>n\<in>set (nodes (tick calmEnv 1000 1000 novaWorld)).
             0 \<le> n_currentIntegrity n \<and> n_currentIntegrity n \<le> n_maxIntegrity n"
    by blast
  from n d have n2: "wellFormed (gameReducer (initialState (\<lambda>_. [])) calmEnv (TICK 1000 1000) novaWorld)"
    by blast
  have d': "payloadInBounds (initialState (\<lambda>_. [])) (LOAD_GAME (Some powerWorld)) novaWorld"
    using a' b' c'(1,2) by (simp add: payloadInBounds_def wellFormed_def list_all_iff sound_def)
  from integrity_and_power_bounded
         [OF a b c(1,2), where shared = "initialState (\<lambda>_. [])"
            and a = "LOAD_GAME (Some powerWorld)" and e = calmEnv] d'
  have n3: "wellFormed
        (gameReducer (initialState (\<lambda>_. [])) calmEnv (LOAD_GAME (Some powerWorld)) novaWorld)"
    by blast
  from p have p1: "0 \<le> power_level (projection (tick calmEnv 1000 1000 powerWorld))"
    "power_level (projection (tick calmEnv 1000 1000 powerWorld)) \<le> 100"
    by blast+
  show ?thesis
    using a b c a' b' c'(3) d d' n1 n2 n3 p1 hitIndex_novaWorld(1,3)
      tick_novaWorld_star [of calmEnv 1000 1000] tick_powerWorld(1)
      tick_powerWorld(2) [of 1000 1000]
    by (simp add: list_all_iff)
qed

section \<open>C9: what idle ticks change\<close>




end
